theory Spec2Isabelle
  imports Main "HOL-Library.Word"
begin

section \<open>Strings\<close>

text \<open>
  Go strings are byte strings; they are modelled as \<open>string\<close> (a list of bytes). The
  helpers below are the functions of Go's \<open>strings\<close> package that the MX server calls,
  on ASCII input: \<open>ToLower\<close> folds \<open>A\<close>..\<open>Z\<close> only and \<open>Fields\<close> splits at the six ASCII
  white-space bytes.
\<close>

type_synonym bytes = string

definition is_upper :: "char \<Rightarrow> bool" where
  "is_upper c = (c \<in> set ''ABCDEFGHIJKLMNOPQRSTUVWXYZ'')"

definition to_lower_char :: "char \<Rightarrow> char" where
  "to_lower_char c = (if is_upper c then char_of (of_char c + (32::nat)) else c)"

definition ToLower :: "string \<Rightarrow> string" where
  "ToLower s = map to_lower_char s"

text \<open>\<open>strings.Split(s, sep)\<close> for a one-byte separator: one more part than separators.\<close>

fun Split :: "string \<Rightarrow> char \<Rightarrow> string list" where
  "Split [] sep = [[]]"
| "Split (c # cs) sep =
     (if c = sep then [] # Split cs sep
      else (case Split cs sep of p # ps \<Rightarrow> (c # p) # ps | [] \<Rightarrow> [[c]]))"

definition HasPrefix :: "string \<Rightarrow> string \<Rightarrow> bool" where
  "HasPrefix s p = (take (length p) s = p)"

definition TrimPrefix :: "string \<Rightarrow> string \<Rightarrow> string" where
  "TrimPrefix s p = (if HasPrefix s p then drop (length p) s else s)"

definition Trim :: "string \<Rightarrow> string \<Rightarrow> string" where
  "Trim s cutset =
     rev (dropWhile (\<lambda>c. c \<in> set cutset) (rev (dropWhile (\<lambda>c. c \<in> set cutset) s)))"

definition is_space :: "char \<Rightarrow> bool" where
  "is_space c = (c \<in> {CHR 0x09, CHR 0x0A, CHR 0x0B, CHR 0x0C, CHR 0x0D, CHR '' ''})"

text \<open>\<open>strings.Fields\<close>: the maximal runs of non-space bytes, in order.\<close>

fun fields_from :: "string \<Rightarrow> string \<Rightarrow> string list" where
  "fields_from cur [] = (if cur = [] then [] else [cur])"
| "fields_from cur (c # cs) =
     (if is_space c then (if cur = [] then fields_from [] cs else cur # fields_from [] cs)
      else fields_from (cur @ [c]) cs)"

definition Fields :: "string \<Rightarrow> string list" where
  "Fields s = fields_from [] s"

section \<open>Errors\<close>

text \<open>
  Go \<open>error\<close> values. \<open>Errorf\<close> is \<open>fmt.Errorf\<close> with a fixed text, \<open>Errorf_s\<close> and
  \<open>Errorf_d\<close> are \<open>fmt.Errorf\<close> with one \<open>%s\<close> or \<open>%d\<close> argument, and \<open>Wrapf m e\<close> is
  \<open>fmt.Errorf(m + ": %w", e)\<close>, which wraps \<open>e\<close>. \<open>DriverError\<close> stands for whatever the
  database driver reports.
\<close>

datatype error =
    ErrNoRows
  | DriverError string
  | Errorf string
  | Errorf_s string string
  | Errorf_d string "64 word"
  | Wrapf string error

section \<open>Configuration (config.go)\<close>

record Config =
  Domains :: "string list"
  MaxMsgSizeMB :: "64 word"
  MaxEmailsPerAddress :: "64 word"
  CheckDKIM :: bool
  CheckSPF :: bool
  CheckDMARC :: bool

definition GetMaxMessageSize :: "Config \<Rightarrow> 64 word" where
  "GetMaxMessageSize c = MaxMsgSizeMB c * 1024 * 1024"

definition GetDomainMap :: "Config \<Rightarrow> (string \<rightharpoonup> bool)" where
  "GetDomainMap c = foldl (\<lambda>domains domain. domains(domain \<mapsto> True)) Map.empty (Domains c)"

text \<open>Reading a Go \<open>map[string]bool\<close>: a missing key reads as \<open>false\<close>.\<close>

definition map_index :: "(string \<rightharpoonup> bool) \<Rightarrow> string \<Rightarrow> bool" where
  "map_index m k = (case m k of Some b \<Rightarrow> b | None \<Rightarrow> False)"

section \<open>Mail store (database.go)\<close>

type_synonym uuid = nat
type_synonym instant = int

record EmailData =
  MessageID :: string
  Subject :: string
  FromAddr :: string
  ToAddr :: string
  RawHeaders :: string
  BodyPlain :: string
  BodyHTML :: string
  RawMessage :: bytes
  SizeBytes :: int
  DKIMValid :: "bool option"
  SPFResult :: string
  DMARCResult :: string
  HasAttachments :: bool
  ReceivedAt :: instant

record AttachmentData =
  Filename :: string
  ContentType :: string
  AttSizeBytes :: int
  Data :: bytes

text \<open>The four tables, with the columns that the statements of database.go read or write.\<close>

record email_row =
  e_id :: uuid
  message_id :: string
  subject :: string
  from_address :: string
  to_address :: string
  raw_headers :: string
  body_plain :: string
  body_html :: string
  raw_message :: bytes
  size_bytes :: int
  dkim_valid :: "bool option"
  spf_result :: string
  dmarc_result :: string
  has_attachments :: bool
  received_at :: instant

record address_row =
  addr_id :: uuid
  addr_email :: string

record recipient_row =
  email_id :: uuid
  address_id :: uuid

record attachment_row =
  att_email_id :: uuid
  att_filename :: string
  att_content_type :: string
  att_size_bytes :: int
  att_data :: bytes

record Tables =
  emails :: "email_row list"
  addresses :: "address_row list"
  email_recipients :: "recipient_row list"
  attachments :: "attachment_row list"

text \<open>
  Every statement sent to the database may fail (connectivity, a violated constraint).
  Which ones do is not decided by the Go code, so it is an input: \<open>F st = Some e\<close> says
  that statement \<open>st\<close> fails with the driver's error \<open>e\<close>.
\<close>

datatype stmt =
    Begin
  | InsertEmail
  | SelectAddress
  | InsertRecipient
  | InsertAttachment nat
  | Commit
  | SelectExists
  | DeleteExcess

type_synonym faults = "stmt \<Rightarrow> error option"

text \<open>The id that \<open>uuid_generate_v4()\<close> gives a new \<open>emails\<close> row: one not in the table.\<close>

definition fresh_uuid :: "Tables \<Rightarrow> uuid" where
  "fresh_uuid tx = Suc (foldr max (map e_id (emails tx)) 0)"

definition email_row_of :: "uuid \<Rightarrow> EmailData \<Rightarrow> email_row" where
  "email_row_of emailID email =
     \<lparr> e_id = emailID,
       message_id = MessageID email, subject = Subject email,
       from_address = FromAddr email, to_address = ToAddr email,
       raw_headers = RawHeaders email, body_plain = BodyPlain email,
       body_html = BodyHTML email, raw_message = RawMessage email,
       size_bytes = SizeBytes email, dkim_valid = DKIMValid email,
       spf_result = SPFResult email, dmarc_result = DMARCResult email,
       has_attachments = HasAttachments email, received_at = ReceivedAt email \<rparr>"

text \<open>\<open>INSERT INTO emails (...) VALUES ($1, ..., $14) RETURNING id\<close>.\<close>

definition insert_email :: "faults \<Rightarrow> Tables \<Rightarrow> EmailData \<Rightarrow> error + (Tables \<times> uuid)" where
  "insert_email F tx email =
     (case F InsertEmail of
        Some err \<Rightarrow> Inl err
      | None \<Rightarrow>
          let emailID = fresh_uuid tx in
          Inr (tx\<lparr>emails := emails tx @ [email_row_of emailID email]\<rparr>, emailID))"

text \<open>\<open>SELECT id FROM addresses WHERE email = $1\<close>, scanned into one row.\<close>

definition select_address_id :: "faults \<Rightarrow> Tables \<Rightarrow> string \<Rightarrow> error + uuid" where
  "select_address_id F tx e =
     (case F SelectAddress of
        Some err \<Rightarrow> Inl err
      | None \<Rightarrow>
          (case find (\<lambda>a. addr_email a = e) (addresses tx) of
             None \<Rightarrow> Inl ErrNoRows
           | Some a \<Rightarrow> Inr (addr_id a)))"

definition getAddress :: "faults \<Rightarrow> Tables \<Rightarrow> string \<Rightarrow> error + uuid" where
  "getAddress F tx email =
     (let normalizedEmail = ToLower email in
      case select_address_id F tx normalizedEmail of
        Inl err \<Rightarrow>
          if err = ErrNoRows then Inl (Errorf_s ''address does not exist: %s'' normalizedEmail)
          else Inl (Wrapf ''failed to query address'' err)
      | Inr addressID \<Rightarrow> Inr addressID)"

definition insert_recipient :: "faults \<Rightarrow> Tables \<Rightarrow> uuid \<Rightarrow> uuid \<Rightarrow> error + Tables" where
  "insert_recipient F tx emailID addressID =
     (case F InsertRecipient of
        Some err \<Rightarrow> Inl err
      | None \<Rightarrow>
          Inr (tx\<lparr>email_recipients :=
                    email_recipients tx @ [\<lparr> email_id = emailID, address_id = addressID \<rparr>]\<rparr>))"

definition attachment_row_of :: "uuid \<Rightarrow> AttachmentData \<Rightarrow> attachment_row" where
  "attachment_row_of emailID att =
     \<lparr> att_email_id = emailID, att_filename = Filename att,
       att_content_type = ContentType att, att_size_bytes = AttSizeBytes att,
       att_data = Data att \<rparr>"

text \<open>The loop over the attachments; \<open>i\<close> counts the statements, for \<open>F\<close>.\<close>

fun insert_attachments ::
  "faults \<Rightarrow> nat \<Rightarrow> Tables \<Rightarrow> uuid \<Rightarrow> AttachmentData list \<Rightarrow> error + Tables" where
  "insert_attachments F i tx emailID [] = Inr tx"
| "insert_attachments F i tx emailID (att # rest) =
     (case F (InsertAttachment i) of
        Some err \<Rightarrow> Inl err
      | None \<Rightarrow>
          insert_attachments F (Suc i)
            (tx\<lparr>attachments := attachments tx @ [attachment_row_of emailID att]\<rparr>)
            emailID rest)"

text \<open>
  A transaction works on its own copy \<open>tx\<close> of the committed tables \<open>db\<close>.
  \<open>tx.Commit()\<close> makes the copy the committed state, \<open>tx.Rollback()\<close> (deferred in
  \<open>StoreEmail\<close>, a no-op after a commit) drops it.
\<close>

definition Rollback :: "Tables \<Rightarrow> Tables \<Rightarrow> Tables" where
  "Rollback db tx = db"

definition tx_Commit :: "faults \<Rightarrow> Tables \<Rightarrow> error + Tables" where
  "tx_Commit F tx = (case F Commit of Some err \<Rightarrow> Inl err | None \<Rightarrow> Inr tx)"

text \<open>
  \<open>StoreEmail\<close> (the variant that calls \<open>getAddress\<close>) returns the committed tables and
  the error, \<open>None\<close> for \<open>nil\<close>. The goroutine it starts after the commit runs
  \<open>EnforceEmailLimit\<close> later; that is the separate operation below.
\<close>

definition StoreEmail ::
  "faults \<Rightarrow> Tables \<Rightarrow> EmailData \<Rightarrow> AttachmentData list \<Rightarrow> Tables \<times> error option" where
  "StoreEmail F db email atts =
     (case F Begin of
        Some err \<Rightarrow> (db, Some (Wrapf ''failed to begin transaction'' err))
      | None \<Rightarrow>
          let tx = db in
          (case insert_email F tx email of
             Inl err \<Rightarrow> (Rollback db tx, Some (Wrapf ''failed to insert email'' err))
           | Inr (tx1, emailID) \<Rightarrow>
               (case getAddress F tx1 (ToAddr email) of
                  Inl err \<Rightarrow> (Rollback db tx1, Some (Wrapf ''failed to get address'' err))
                | Inr addressID \<Rightarrow>
                    (case insert_recipient F tx1 emailID addressID of
                       Inl err \<Rightarrow>
                         (Rollback db tx1, Some (Wrapf ''failed to link email to address'' err))
                     | Inr tx2 \<Rightarrow>
                         (case insert_attachments F 0 tx2 emailID atts of
                            Inl err \<Rightarrow>
                              (Rollback db tx2, Some (Wrapf ''failed to insert attachment'' err))
                          | Inr tx3 \<Rightarrow>
                              (case tx_Commit F tx3 of
                                 Inl err \<Rightarrow>
                                   (Rollback db tx3,
                                    Some (Wrapf ''failed to commit transaction'' err))
                               | Inr db' \<Rightarrow> (db', None)))))))"

definition AddressExists :: "faults \<Rightarrow> Tables \<Rightarrow> string \<Rightarrow> error + bool" where
  "AddressExists F db email =
     (let normalizedEmail = ToLower email in
      case F SelectExists of
        Some err \<Rightarrow> Inl (Wrapf ''failed to check address existence'' err)
      | None \<Rightarrow> Inr (list_ex (\<lambda>a. addr_email a = normalizedEmail) (addresses db)))"

text \<open>
  The statement of \<open>EnforceEmailLimit\<close>, with its two parameters \<open>$1\<close> and \<open>$2\<close>:
  the join of \<open>emails\<close> and \<open>email_recipients\<close> for the address, newest first, without
  its first \<open>$2\<close> rows, gives the ids to delete. Deleting an \<open>emails\<close> row removes its
  recipient links and attachments (\<open>ON DELETE CASCADE\<close>); the trigger on
  \<open>email_recipients\<close> then finds the message already gone. SQL leaves the order of
  rows with equal \<open>received_at\<close> open; the model takes the order of a stable sort.
\<close>

definition joined_for :: "Tables \<Rightarrow> uuid \<Rightarrow> email_row list" where
  "joined_for db a =
     concat (map (\<lambda>e. map (\<lambda>er. e)
                         (filter (\<lambda>er. email_id er = e_id e \<and> address_id er = a)
                                 (email_recipients db)))
                 (emails db))"

definition order_by_received_at_desc :: "email_row list \<Rightarrow> email_row list" where
  "order_by_received_at_desc rows = sort_key (\<lambda>e. - received_at e) rows"

definition excess_ids :: "Tables \<Rightarrow> uuid \<Rightarrow> nat \<Rightarrow> uuid list" where
  "excess_ids db a n = map e_id (drop n (order_by_received_at_desc (joined_for db a)))"

definition delete_emails :: "Tables \<Rightarrow> uuid list \<Rightarrow> Tables" where
  "delete_emails db ids =
     db\<lparr> emails := filter (\<lambda>e. e_id e \<notin> set ids) (emails db),
         email_recipients := filter (\<lambda>er. email_id er \<notin> set ids) (email_recipients db),
         attachments := filter (\<lambda>at. att_email_id at \<notin> set ids) (attachments db) \<rparr>"

definition delete_excess :: "Tables \<Rightarrow> uuid \<Rightarrow> nat \<Rightarrow> Tables" where
  "delete_excess db a n = delete_emails db (excess_ids db a n)"

definition maxEmails :: nat where
  "maxEmails = 100"

definition EnforceEmailLimit :: "faults \<Rightarrow> Tables \<Rightarrow> uuid \<Rightarrow> Tables \<times> error option" where
  "EnforceEmailLimit F db addressID =
     (case F DeleteExcess of
        Some err \<Rightarrow> (db, Some (Wrapf ''failed to enforce email limit'' err))
      | None \<Rightarrow> (delete_excess db addressID maxEmails, None))"

section \<open>Libraries\<close>

text \<open>
  What the server calls outside its own code: Go's \<open>net\<close> and \<open>net/mail\<close> packages,
  the DNS resolver behind \<open>net.LookupTXT\<close>, go-msgauth's DKIM verifier and enmime's
  MIME parser. They are inputs of the model. A result \<open>None\<close> (or \<open>Inl\<close>) is the
  library's error return. \<open>'ip\<close> is \<open>net.IP\<close> and \<open>'net\<close> is \<open>*net.IPNet\<close>.
\<close>

record Verification =
  Err :: "error option"
  Domain :: string

record Part =
  FileName :: string
  PartContentType :: string
  Content :: bytes

text \<open>
  An enmime envelope: \<open>GetHeader\<close> is its method, \<open>RootHeader\<close> lists \<open>Root.Header\<close>
  in the order in which the \<open>range\<close> loop of \<open>extractEmailData\<close> visits it.
\<close>

record Envelope =
  GetHeader :: "string \<Rightarrow> string"
  RootHeader :: "(string \<times> string list) list"
  Text :: string
  HTML :: string
  Attachments :: "Part list"
  Inlines :: "Part list"

record ('ip, 'net) Lib =
  mail_ParseAddress :: "string \<Rightarrow> string option"
  mail_ParseDate :: "string \<Rightarrow> instant option"
  net_ParseIP :: "string \<Rightarrow> 'ip option"
  net_ParseCIDR :: "string \<Rightarrow> 'net option"
  IPNet_Contains :: "'net \<Rightarrow> 'ip \<Rightarrow> bool"
  IP_Equal :: "'ip \<Rightarrow> 'ip \<Rightarrow> bool"
  net_LookupTXT :: "string \<Rightarrow> error + string list"
  net_SplitHostPort :: "string \<Rightarrow> (string \<times> string) option"
  dkim_Verify :: "bytes \<Rightarrow> error + Verification list"
  enmime_ReadEnvelope :: "bytes \<Rightarrow> Envelope option"

section \<open>Authenticator (validation.go)\<close>

record ValidationResult =
  v_DKIMValid :: "bool option"
  v_SPFResult :: string
  v_DMARCResult :: string

definition extractDomain :: "string \<Rightarrow> string" where
  "extractDomain email =
     (let email' = Trim email ''<>'';
          parts = Split email' CHR ''@''
      in if length parts = 2 then ToLower (parts ! 1) else [])"

definition validateDKIM :: "('ip, 'net) Lib \<Rightarrow> bytes \<Rightarrow> bool" where
  "validateDKIM L rawMessage =
     (case dkim_Verify L rawMessage of
        Inl err \<Rightarrow> False
      | Inr verifications \<Rightarrow>
          if length verifications = 0 then False
          else list_ex (\<lambda>verification. Err verification = None) verifications)"

definition lookupSPFRecord :: "('ip, 'net) Lib \<Rightarrow> string \<Rightarrow> error + string" where
  "lookupSPFRecord L domain =
     (case net_LookupTXT L domain of
        Inl err \<Rightarrow> Inl (Wrapf ''DNS lookup failed'' err)
      | Inr txtRecords \<Rightarrow>
          (case find (\<lambda>record. HasPrefix record ''v=spf1'') txtRecords of
             Some record \<Rightarrow> Inr record
           | None \<Rightarrow> Inl (Errorf ''no SPF record found'')))"

definition matchIP :: "('ip, 'net) Lib \<Rightarrow> 'ip \<Rightarrow> string \<Rightarrow> bool" where
  "matchIP L ip ipRange =
     (if CHR ''/'' \<in> set ipRange then
        (case net_ParseCIDR L ipRange of
           Some network \<Rightarrow> IPNet_Contains L network ip
         | None \<Rightarrow> False)
      else
        (case net_ParseIP L ipRange of
           Some testIP \<Rightarrow> IP_Equal L testIP ip
         | None \<Rightarrow> False))"

text \<open>The body of the loop of \<open>evaluateBasicSPF\<close>: \<open>Some r\<close> is \<open>return r\<close>.\<close>

definition spf_mechanism :: "('ip, 'net) Lib \<Rightarrow> 'ip \<Rightarrow> string \<Rightarrow> string option" where
  "spf_mechanism L ip mech =
     (if HasPrefix mech ''ip4:'' \<or> HasPrefix mech ''ip6:'' then
        (let ipRange = TrimPrefix mech ''ip4:'';
             ipRange' = TrimPrefix ipRange ''ip6:''
         in if matchIP L ip ipRange' then Some ''pass'' else None)
      else if mech = ''a'' \<or> mech = ''+a'' then Some ''neutral''
      else if mech = ''-all'' then Some ''fail''
      else if mech = ''~all'' then Some ''softfail''
      else if mech = ''?all'' then Some ''neutral''
      else None)"

fun spf_loop :: "('ip, 'net) Lib \<Rightarrow> 'ip \<Rightarrow> string list \<Rightarrow> string" where
  "spf_loop L ip [] = ''neutral''"
| "spf_loop L ip (mech # rest) =
     (case spf_mechanism L ip mech of
        Some r \<Rightarrow> r
      | None \<Rightarrow> spf_loop L ip rest)"

text \<open>
  \<open>mechanisms[1:]\<close> panics on a record without fields; \<open>None\<close> is that panic, here and
  in the callers.
\<close>

definition evaluateBasicSPF ::
  "('ip, 'net) Lib \<Rightarrow> 'ip \<Rightarrow> string \<Rightarrow> string \<Rightarrow> string option" where
  "evaluateBasicSPF L ip spfRecord domain =
     (let mechanisms = Fields spfRecord in
      if length mechanisms < 1 then None
      else Some (spf_loop L ip (drop 1 mechanisms)))"

definition validateSPF ::
  "('ip, 'net) Lib \<Rightarrow> string \<Rightarrow> string \<Rightarrow> string \<Rightarrow> string option" where
  "validateSPF L clientIP heloName from_addr =
     (let domain = extractDomain from_addr in
      if domain = [] then Some ''none''
      else
        (case net_ParseIP L clientIP of
           None \<Rightarrow> Some ''none''
         | Some ip \<Rightarrow>
             (case lookupSPFRecord L domain of
                Inl err \<Rightarrow> Some ''none''
              | Inr spfRecord \<Rightarrow> evaluateBasicSPF L ip spfRecord domain)))"

definition lookupDMARCRecord :: "('ip, 'net) Lib \<Rightarrow> string \<Rightarrow> error + string" where
  "lookupDMARCRecord L domain =
     (let dmarcDomain = ''_dmarc.'' @ domain in
      case net_LookupTXT L dmarcDomain of
        Inl err \<Rightarrow> Inl (Wrapf ''DNS lookup failed'' err)
      | Inr txtRecords \<Rightarrow>
          (case find (\<lambda>record. HasPrefix record ''v=DMARC1'') txtRecords of
             Some record \<Rightarrow> Inr record
           | None \<Rightarrow> Inl (Errorf ''no DMARC record found'')))"

definition validateDMARC ::
  "('ip, 'net) Lib \<Rightarrow> string \<Rightarrow> string \<Rightarrow> bool option \<Rightarrow> string" where
  "validateDMARC L domain spfResult dkimValid =
     (if domain = [] then ''none''
      else
        (case lookupDMARCRecord L domain of
           Inl err \<Rightarrow> ''none''
         | Inr dmarcRecord \<Rightarrow>
             let spfPass = (spfResult = ''pass'');
                 dkimPass = (dkimValid = Some True)
             in if spfPass \<or> dkimPass then ''pass'' else ''fail''))"

definition ValidateEmail ::
  "('ip, 'net) Lib \<Rightarrow> Config \<Rightarrow> bytes \<Rightarrow> string \<Rightarrow> string \<Rightarrow> string
     \<Rightarrow> ValidationResult option" where
  "ValidateEmail L vcfg rawMessage from_addr clientIP heloName =
     (let result = \<lparr> v_DKIMValid = None, v_SPFResult = ''none'', v_DMARCResult = ''none'' \<rparr>;
          result1 = (if CheckDKIM vcfg
                     then result\<lparr>v_DKIMValid := Some (validateDKIM L rawMessage)\<rparr>
                     else result)
      in case (if CheckSPF vcfg
               then map_option (\<lambda>r. result1\<lparr>v_SPFResult := r\<rparr>)
                      (validateSPF L clientIP heloName from_addr)
               else Some result1) of
           None \<Rightarrow> None
         | Some result2 \<Rightarrow>
             Some (if CheckDMARC vcfg
                   then (let fromDomain = extractDomain from_addr in
                         result2\<lparr>v_DMARCResult :=
                           validateDMARC L fromDomain (v_SPFResult result2)
                             (v_DKIMValid result2)\<rparr>)
                   else result2))"

section \<open>SMTP session (session.go, server.go)\<close>

text \<open>
  The session's \<open>db\<close> pointer is the committed \<open>Tables\<close>, passed to the operations
  that use it; \<open>validator\<close> is \<open>nil\<close> or a validator holding a configuration.
\<close>

record Session =
  from_addr :: string
  to_addrs :: "string list"
  remoteAddr :: string
  hostname :: string
  cfg :: Config
  validator :: "Config option"
  domains :: "string \<rightharpoonup> bool"

definition NewSession ::
  "string \<Rightarrow> string \<Rightarrow> Config \<Rightarrow> Config option \<Rightarrow> (string \<rightharpoonup> bool) \<Rightarrow> Session" where
  "NewSession ra hn c v ds =
     \<lparr> from_addr = [], to_addrs = [], remoteAddr = ra, hostname = hn, cfg = c,
       validator = v, domains = ds \<rparr>"

text \<open>\<open>NewSMTPServer\<close> creates the validator only when some check is switched on.\<close>

definition NewSMTPServer_validator :: "Config \<Rightarrow> Config option" where
  "NewSMTPServer_validator c =
     (if CheckDKIM c \<or> CheckSPF c \<or> CheckDMARC c then Some c else None)"

definition Backend_NewSession :: "Config \<Rightarrow> string \<Rightarrow> string \<Rightarrow> Session" where
  "Backend_NewSession c ra hn =
     NewSession ra hn c (NewSMTPServer_validator c) (GetDomainMap c)"

definition Mail :: "Session \<Rightarrow> string \<Rightarrow> Session" where
  "Mail s f = s\<lparr>from_addr := f, to_addrs := []\<rparr>"

definition Rcpt :: "('ip, 'net) Lib \<Rightarrow> Session \<Rightarrow> string \<Rightarrow> error + Session" where
  "Rcpt L s rcpt =
     (case mail_ParseAddress L rcpt of
        None \<Rightarrow> Inl (Errorf ''invalid recipient address'')
      | Some addr \<Rightarrow>
          let parts = Split addr CHR ''@'' in
          if length parts \<noteq> 2 then Inl (Errorf ''invalid email format'')
          else
            let domain = ToLower (parts ! 1) in
            if \<not> map_index (domains s) domain
            then Inl (Errorf_s ''relay access denied for domain %s'' domain)
            else
              let normalizedEmail = ToLower addr in
              Inr (s\<lparr>to_addrs := to_addrs s @ [normalizedEmail]\<rparr>))"

text \<open>
  An \<open>io.Reader\<close>: the bytes it delivers, then end of file (\<open>None\<close>) or an error.
  \<open>read_limited r n\<close> is \<open>buf.ReadFrom(io.LimitReader(r, n))\<close>: the limited reader
  reports end of file after \<open>n\<close> bytes without asking \<open>r\<close> again.
\<close>

datatype reader = Reader bytes "error option"

definition read_limited :: "reader \<Rightarrow> 64 word \<Rightarrow> error + bytes" where
  "read_limited r n =
     (case r of Reader bs e \<Rightarrow>
        if sint n \<le> 0 then Inr []
        else if sint n \<le> int (length bs) then Inr (take (nat (sint n)) bs)
        else (case e of None \<Rightarrow> Inr bs | Some err \<Rightarrow> Inl err))"

text \<open>
  Instants count from Go's zero \<open>time.Time\<close>, so \<open>IsZero\<close> is \<open>= 0\<close>; \<open>now\<close> is what
  \<open>time.Now()\<close> returns during the call. \<open>dateSent_of\<close> is the local variable
  \<open>dateSent\<close> of \<open>extractEmailData\<close>.
\<close>

definition dateSent_of :: "('ip, 'net) Lib \<Rightarrow> Envelope \<Rightarrow> instant \<Rightarrow> instant" where
  "dateSent_of L envelope now =
     (let dateStr = GetHeader envelope ''Date'';
          dateSent = (if dateStr \<noteq> []
                      then (case mail_ParseDate L dateStr of Some t \<Rightarrow> t | None \<Rightarrow> 0)
                      else 0)
      in if dateSent = 0 then now else dateSent)"

definition header_lines :: "(string \<times> string list) list \<Rightarrow> string" where
  "header_lines hs =
     concat (map (\<lambda>(key, values).
                    concat (map (\<lambda>val. key @ '': '' @ val @ [CHR 0x0A]) values)) hs)"

definition extractEmailData ::
  "('ip, 'net) Lib \<Rightarrow> Session \<Rightarrow> Envelope \<Rightarrow> bytes \<Rightarrow> int \<Rightarrow> instant \<Rightarrow> EmailData" where
  "extractEmailData L s envelope rawMessage sz now =
     (let messageID = GetHeader envelope ''Message-ID'';
          subj = GetHeader envelope ''Subject'';
          dateSent = dateSent_of L envelope now;
          rawHeaders = header_lines (RootHeader envelope);
          bodyPlain = Text envelope;
          bodyHTML = HTML envelope;
          bodyPlain' = (if bodyPlain = [] \<and> bodyHTML \<noteq> []
                        then ''[HTML email - plain text not provided]''
                        else bodyPlain)
      in \<lparr> MessageID = messageID, Subject = subj, FromAddr = from_addr s, ToAddr = [],
           RawHeaders = rawHeaders, BodyPlain = bodyPlain', BodyHTML = bodyHTML,
           RawMessage = rawMessage, SizeBytes = sz, DKIMValid = None, SPFResult = [],
           DMARCResult = [], HasAttachments = False, ReceivedAt = now \<rparr>)"

definition attachment_of :: "Part \<Rightarrow> AttachmentData" where
  "attachment_of p =
     \<lparr> Filename = FileName p, ContentType = PartContentType p,
       AttSizeBytes = int (length (Content p)), Data = Content p \<rparr>"

definition extractAttachments :: "Envelope \<Rightarrow> AttachmentData list" where
  "extractAttachments envelope =
     map attachment_of (Attachments envelope) @ map attachment_of (Inlines envelope)"

definition getClientIP :: "('ip, 'net) Lib \<Rightarrow> Session \<Rightarrow> string" where
  "getClientIP L s =
     (case net_SplitHostPort L (remoteAddr s) of
        None \<Rightarrow> remoteAddr s
      | Some (host, port) \<Rightarrow> host)"

text \<open>
  The loop of \<open>Data\<close> over the recipients: one \<open>StoreEmail\<close>, hence one transaction,
  each; \<open>F i\<close> are the database failures during the \<open>i\<close>-th of them.
\<close>

fun store_loop ::
  "(nat \<Rightarrow> faults) \<Rightarrow> nat \<Rightarrow> Tables \<Rightarrow> EmailData \<Rightarrow> AttachmentData list \<Rightarrow> string list
     \<Rightarrow> Tables \<times> error option" where
  "store_loop F i db emailData atts [] = (db, None)"
| "store_loop F i db emailData atts (recipient # rest) =
     (let emailData' = emailData\<lparr>ToAddr := recipient\<rparr> in
      case StoreEmail (F i) db emailData' atts of
        (db', Some err) \<Rightarrow> (db', Some (Errorf ''error storing message''))
      | (db', None) \<Rightarrow> store_loop F (Suc i) db' emailData' atts rest)"

text \<open>\<open>Data\<close> returns the committed tables and the error; \<open>None\<close> is a panic.\<close>

definition Data ::
  "('ip, 'net) Lib \<Rightarrow> (nat \<Rightarrow> faults) \<Rightarrow> Session \<Rightarrow> Tables \<Rightarrow> reader \<Rightarrow> instant
     \<Rightarrow> (Tables \<times> error option) option" where
  "Data L F s db r now =
     (case read_limited r (GetMaxMessageSize (cfg s)) of
        Inl err \<Rightarrow> Some (db, Some (Errorf ''error reading message''))
      | Inr buf \<Rightarrow>
          let sz = int (length buf) in
          if sint (GetMaxMessageSize (cfg s)) \<le> sz
          then Some (db, Some (Errorf_d ''message too large (max %d MB)''
                                 (MaxMsgSizeMB (cfg s))))
          else
            let rawMessage = buf in
            (case enmime_ReadEnvelope L rawMessage of
               None \<Rightarrow> Some (db, Some (Errorf ''error processing message''))
             | Some envelope \<Rightarrow>
                 let emailData = extractEmailData L s envelope rawMessage sz now in
                 (case (case validator s of
                          None \<Rightarrow> Some emailData
                        | Some vcfg \<Rightarrow>
                            map_option
                              (\<lambda>validationResult.
                                 emailData\<lparr>DKIMValid := v_DKIMValid validationResult,
                                           SPFResult := v_SPFResult validationResult,
                                           DMARCResult := v_DMARCResult validationResult\<rparr>)
                              (ValidateEmail L vcfg rawMessage (from_addr s)
                                 (getClientIP L s) (hostname s))) of
                    None \<Rightarrow> None
                  | Some emailData1 \<Rightarrow>
                      let atts = extractAttachments envelope;
                          emailData2 = emailData1\<lparr>HasAttachments := (length atts > 0)\<rparr>
                      in Some (store_loop F 0 db emailData2 atts (to_addrs s)))))"

section \<open>Sample inputs\<close>

text \<open>
  Concrete inputs for the closed theorems below. \<open>sample_lib\<close> tabulates what the
  libraries return at the inputs used: \<open>mail.ParseAddress\<close> returns a bare address
  unchanged, the IPv4 addresses are their 32-bit values, an \<open>IPNet\<close> is a base address
  and a prefix length, and DNS publishes the record of scenario S5 for
  \<open>example.com\<close> and a record with a CIDR range for \<open>example.net\<close>.
\<close>

definition sample_message :: bytes where
  "sample_message = ''Subject: hi'' @ [CHR 0x0D, CHR 0x0A, CHR 0x0D, CHR 0x0A] @ ''hello''"

definition sample_envelope :: Envelope where
  "sample_envelope =
     \<lparr> GetHeader = (\<lambda>h. if h = ''Subject'' then ''hi'' else []),
       RootHeader = [(''Subject'', [''hi''])],
       Text = ''hello'', HTML = [], Attachments = [], Inlines = [] \<rparr>"

text \<open>A message with headers only: enmime extracts neither a plain nor an HTML body.\<close>

definition blank_message :: bytes where
  "blank_message = ''Subject: hi'' @ [CHR 0x0D, CHR 0x0A, CHR 0x0D, CHR 0x0A]"

definition blank_envelope :: Envelope where
  "blank_envelope = sample_envelope\<lparr>Text := []\<rparr>"

text \<open>An HTML-only message.\<close>

definition html_message :: bytes where
  "html_message =
     ''Content-Type: text/html'' @ [CHR 0x0D, CHR 0x0A, CHR 0x0D, CHR 0x0A] @ ''<p>hello</p>''"

definition html_envelope :: Envelope where
  "html_envelope =
     \<lparr> GetHeader = (\<lambda>h. if h = ''Content-Type'' then ''text/html'' else []),
       RootHeader = [(''Content-Type'', [''text/html''])],
       Text = [], HTML = ''<p>hello</p>'', Attachments = [], Inlines = [] \<rparr>"

text \<open>The envelope of a message that carries a \<open>Date:\<close> header.\<close>

definition dated_envelope :: Envelope where
  "dated_envelope =
     \<lparr> GetHeader = (\<lambda>h. if h = ''Date'' then ''Mon, 01 Jan 2024 12:00:00 +0000''
                        else if h = ''Subject'' then ''hi'' else []),
       RootHeader = [(''Date'', [''Mon, 01 Jan 2024 12:00:00 +0000'']), (''Subject'', [''hi''])],
       Text = ''hello'', HTML = [], Attachments = [], Inlines = [] \<rparr>"

definition sample_lib :: "(nat, nat \<times> nat) Lib" where
  "sample_lib =
     \<lparr> mail_ParseAddress =
         [''ghost@tempmail.example.com'' \<mapsto> ''ghost@tempmail.example.com'',
          ''alive@tempmail.example.com'' \<mapsto> ''alive@tempmail.example.com'',
          ''x@EXAMPLE.COM'' \<mapsto> ''x@EXAMPLE.COM''],
       mail_ParseDate = [''Mon, 01 Jan 2024 12:00:00 +0000'' \<mapsto> 63839707200],
       net_ParseIP = [''192.0.2.10'' \<mapsto> 3221225994, ''203.0.113.5'' \<mapsto> 3405803781],
       net_ParseCIDR = [''192.0.2.0/24'' \<mapsto> (3221225984, 24)],
       IPNet_Contains = (\<lambda>(base, bits) ip. ip div 2 ^ (32 - bits) = base div 2 ^ (32 - bits)),
       IP_Equal = (\<lambda>a b. a = b),
       net_LookupTXT =
         (\<lambda>name. if name = ''example.com''
                  then Inr [''google-site-verification=abc'', ''v=spf1 ip4:192.0.2.10 -all'']
                  else if name = ''_dmarc.example.com'' then Inr [''v=DMARC1; p=none'']
                  else if name = ''example.net''
                  then Inr [''v=spf1 include:_spf.example.org ip4:192.0.2.0/24 ~all'']
                  else Inl (DriverError ''no such host'')),
       net_SplitHostPort = [''192.0.2.10:40000'' \<mapsto> (''192.0.2.10'', ''40000'')],
       dkim_Verify = (\<lambda>raw. Inr []),
       enmime_ReadEnvelope =
         [sample_message \<mapsto> sample_envelope, blank_message \<mapsto> blank_envelope,
          html_message \<mapsto> html_envelope] \<rparr>"

definition sample_cfg :: Config where
  "sample_cfg =
     \<lparr> Domains = [''tempmail.example.com''], MaxMsgSizeMB = 1,
       MaxEmailsPerAddress = 100,
       CheckDKIM = False, CheckSPF = False, CheckDMARC = False \<rparr>"

definition sample_db :: Tables where
  "sample_db =
     \<lparr> emails = [],
       addresses = [\<lparr> addr_id = 7, addr_email = ''alive@tempmail.example.com'' \<rparr>],
       email_recipients = [], attachments = [] \<rparr>"

text \<open>
  The session of a server with every check switched off, after \<open>MAIL FROM\<close> and an
  accepted \<open>RCPT TO\<close> for the one mailbox of \<open>sample_db\<close>.
\<close>

definition sample_session :: Session where
  "sample_session =
     (Backend_NewSession sample_cfg ''192.0.2.10:40000'' ''client.example.org'')
       \<lparr>from_addr := ''sender@example.com'', to_addrs := [''alive@tempmail.example.com'']\<rparr>"

definition no_faults :: faults where
  "no_faults st = None"

definition mixed_case_cfg :: Config where
  "mixed_case_cfg = sample_cfg\<lparr>Domains := [''Example.com'', ''example.com'']\<rparr>"

definition upper_only_cfg :: Config where
  "upper_only_cfg = sample_cfg\<lparr>Domains := [''Example.com'']\<rparr>"

definition sample_email :: EmailData where
  "sample_email =
     \<lparr> MessageID = [], Subject = ''hi'', FromAddr = ''sender@example.com'',
       ToAddr = ''alive@tempmail.example.com'', RawHeaders = ''Subject: hi'' @ [CHR 0x0A],
       BodyPlain = ''hello'', BodyHTML = [], RawMessage = sample_message, SizeBytes = 20,
       DKIMValid = None, SPFResult = ''none'', DMARCResult = ''none'',
       HasAttachments = False, ReceivedAt = 63839707200 \<rparr>"

definition insert_fails :: faults where
  "insert_fails = no_faults(InsertEmail := Some (DriverError ''connection reset''))"

section \<open>Notions used in the statements\<close>

text \<open>
  The tables after a committed \<open>StoreEmail\<close>: one more \<open>emails\<close> row, one link to the
  mailbox and one row for each attachment.
\<close>

definition committed_store ::
  "Tables \<Rightarrow> EmailData \<Rightarrow> AttachmentData list \<Rightarrow> uuid \<Rightarrow> Tables" where
  "committed_store db email atts addressID =
     db\<lparr> emails := emails db @ [email_row_of (fresh_uuid db) email],
         email_recipients := email_recipients db @
            [\<lparr> email_id = fresh_uuid db, address_id = addressID \<rparr>],
         attachments := attachments db @ map (attachment_row_of (fresh_uuid db)) atts \<rparr>"

text \<open>No statement of the transaction fails and the mailbox is in the \<open>addresses\<close> table.\<close>

definition no_step_fails ::
  "faults \<Rightarrow> Tables \<Rightarrow> EmailData \<Rightarrow> AttachmentData list \<Rightarrow> bool" where
  "no_step_fails F db email atts \<longleftrightarrow>
     F Begin = None \<and> F InsertEmail = None \<and> F SelectAddress = None \<and>
     list_ex (\<lambda>r. addr_email r = ToLower (ToAddr email)) (addresses db) \<and>
     F InsertRecipient = None \<and>
     list_all (\<lambda>j. F (InsertAttachment j) = None) [0..<length atts] \<and>
     F Commit = None"

definition sample_attachment :: AttachmentData where
  "sample_attachment =
     \<lparr> Filename = ''document.pdf'', ContentType = ''application/pdf'',
       AttSizeBytes = 5, Data = ''%PDF-'' \<rparr>"

text \<open>The recipient links of a mailbox, and the messages linked to it.\<close>

definition links_of :: "Tables \<Rightarrow> uuid \<Rightarrow> recipient_row list" where
  "links_of db a = filter (\<lambda>er. address_id er = a) (email_recipients db)"

definition linked_emails :: "Tables \<Rightarrow> uuid \<Rightarrow> email_row list" where
  "linked_emails db a =
     filter (\<lambda>e. list_ex (\<lambda>er. email_id er = e_id e \<and> address_id er = a)
                    (email_recipients db))
            (emails db)"

text \<open>
  The constraints of the schema that the trimming relies on: \<open>emails.id\<close> is a primary
  key, \<open>(email_id, address_id)\<close> is unique in \<open>email_recipients\<close>, and
  \<open>email_recipients.email_id\<close> references \<open>emails\<close>.
\<close>

definition schema_ok :: "Tables \<Rightarrow> bool" where
  "schema_ok db \<longleftrightarrow>
     distinct (map e_id (emails db)) \<and>
     distinct (map (\<lambda>er. (email_id er, address_id er)) (email_recipients db)) \<and>
     list_all (\<lambda>er. list_ex (\<lambda>e. e_id e = email_id er) (emails db)) (email_recipients db)"

text \<open>The messages of a mailbox in the order of the statement's \<open>ORDER BY\<close>.\<close>

definition newest_first :: "Tables \<Rightarrow> uuid \<Rightarrow> email_row list" where
  "newest_first db a = order_by_received_at_desc (joined_for db a)"

text \<open>Scenario S6: five messages for one mailbox, received at instants 1 to 5.\<close>

definition quota_db :: Tables where
  "quota_db =
     \<lparr> emails = map (\<lambda>i. email_row_of i (sample_email\<lparr>ReceivedAt := int i\<rparr>)) [2, 5, 1, 4, 3],
       addresses = [\<lparr> addr_id = 7, addr_email = ''alive@tempmail.example.com'' \<rparr>],
       email_recipients = map (\<lambda>i. \<lparr> email_id = i, address_id = 7 \<rparr>) [2, 5, 1, 4, 3],
       attachments = [attachment_row_of 1 sample_attachment] \<rparr>"

definition never_fails :: "nat \<Rightarrow> faults" where
  "never_fails i = no_faults"

text \<open>The value sets that the comments of \<open>ValidationResult\<close> and \<open>EmailData\<close> list.\<close>

definition spf_values :: "string list" where
  "spf_values = [''pass'', ''fail'', ''softfail'', ''neutral'', ''none'', ''temperror'', ''permerror'']"

definition dmarc_values :: "string list" where
  "dmarc_values = [''pass'', ''fail'', ''none'']"

definition placeholder :: string where
  "placeholder = ''[HTML email - plain text not provided]''"

text \<open>
  The transaction gets as far as the recipient link: it has begun, the message row is
  inserted, and the lookup finds the mailbox.
\<close>

definition lookup_succeeds :: "faults \<Rightarrow> Tables \<Rightarrow> EmailData \<Rightarrow> bool" where
  "lookup_succeeds F db email \<longleftrightarrow>
     F Begin = None \<and> F InsertEmail = None \<and> F SelectAddress = None \<and>
     list_ex (\<lambda>a. addr_email a = ToLower (ToAddr email)) (addresses db)"

definition query_fails :: faults where
  "query_fails = no_faults(SelectAddress := Some (DriverError ''connection reset''))"

definition attachment_fails :: faults where
  "attachment_fails = no_faults(InsertAttachment 1 := Some (DriverError ''value too long''))"

definition commit_fails :: faults where
  "commit_fails = no_faults(Commit := Some (DriverError ''connection reset''))"

text \<open>A configuration whose \<open>max_emails_per_address\<close> is 3, as in scenario S6.\<close>

definition quota_cfg :: Config where
  "quota_cfg = sample_cfg\<lparr>MaxEmailsPerAddress := 3\<rparr>"

section \<open>Facts about the string helpers\<close>

lemma to_lower_char_not_upper: "\<not> is_upper (to_lower_char c)"
  by (cases c) (auto simp add: to_lower_char_def is_upper_def char_of_def)

lemma ToLower_no_upper: "\<not> list_ex is_upper (ToLower s)"
  by (induction s) (simp_all add: ToLower_def to_lower_char_not_upper)

lemma HasPrefix_Cons_Cons [simp]: "HasPrefix (c # s) (d # p) \<longleftrightarrow> c = d \<and> HasPrefix s p"
  by (auto simp add: HasPrefix_def)

lemma HasPrefix_Nil [simp]: "HasPrefix s []"
  by (simp add: HasPrefix_def)

lemma HasPrefix_Nil_Cons [simp]: "\<not> HasPrefix [] (d # p)"
  by (simp add: HasPrefix_def)

lemma HasPrefix_Cons: "HasPrefix s (c # p) \<Longrightarrow> \<exists>t. s = c # t"
  by (cases s) simp_all

lemma TrimPrefix_append: "TrimPrefix (p @ r) p = r"
  by (simp add: TrimPrefix_def HasPrefix_def)

lemma fields_from_Nil_iff: "fields_from cur s = [] \<longleftrightarrow> cur = [] \<and> (\<forall>c \<in> set s. is_space c)"
  by (induction cur s rule: fields_from.induct) auto

lemma find_Some_holds: "find P xs = Some r \<Longrightarrow> P r"
  by (induction xs) (auto split: if_splits)

lemma find_None_list_ex: "find P xs = None \<longleftrightarrow> \<not> list_ex P xs"
  by (induction xs) auto

lemma ToLower_ghost: "ToLower ''ghost@tempmail.example.com'' = ''ghost@tempmail.example.com''"
  by code_simp

lemma ToLower_alive: "ToLower ''alive@tempmail.example.com'' = ''alive@tempmail.example.com''"
  by code_simp

lemma ToLower_tempmail: "ToLower ''tempmail.example.com'' = ''tempmail.example.com''"
  by code_simp

lemma ToLower_EXAMPLE: "ToLower ''EXAMPLE.COM'' = ''example.com''"
  by code_simp

lemma ToLower_Example: "ToLower ''Example.com'' = ''example.com''"
  by code_simp

lemma ToLower_x_EXAMPLE: "ToLower ''x@EXAMPLE.COM'' = ''x@example.com''"
  by code_simp

lemma upper_in_Example: "list_ex is_upper ''Example.com''"
  by code_simp

section \<open>Recipient acceptance\<close>

lemma foldl_domains:
  "foldl (\<lambda>domains domain. domains(domain \<mapsto> True)) m ds k =
     (if k \<in> set ds then Some True else m k)"
  by (induction ds arbitrary: m) auto

lemma map_index_GetDomainMap: "map_index (GetDomainMap c) k \<longleftrightarrow> k \<in> set (Domains c)"
  by (simp add: map_index_def GetDomainMap_def foldl_domains)

text \<open>What \<open>Rcpt\<close> decides on: the parse, the shape and the domain, nothing else.\<close>

lemma Rcpt_Inr_iff:
  "(\<exists>s'. Rcpt L s rcpt = Inr s') \<longleftrightarrow>
     (\<exists>addr. mail_ParseAddress L rcpt = Some addr \<and> length (Split addr CHR ''@'') = 2 \<and>
        map_index (domains s) (ToLower (Split addr CHR ''@'' ! 1)))"
  by (auto simp add: Rcpt_def Let_def split: option.splits)

text \<open>
  C10, as stated, fails: with both \<open>Example.com\<close> and \<open>example.com\<close> configured, a
  recipient at \<open>EXAMPLE.COM\<close> is addressed to the configured domain \<open>Example.com\<close>,
  which contains an upper-case letter, and is accepted.
\<close>

theorem C10_counterexample:
  "''Example.com'' \<in> set (Domains mixed_case_cfg) \<and> list_ex is_upper ''Example.com'' \<and>
   mail_ParseAddress sample_lib ''x@EXAMPLE.COM'' = Some ''x@EXAMPLE.COM'' \<and>
   Split ''x@EXAMPLE.COM'' CHR ''@'' = [''x'', ''EXAMPLE.COM''] \<and>
   ToLower ''EXAMPLE.COM'' = ToLower ''Example.com'' \<and>
   Rcpt sample_lib
       (Backend_NewSession mixed_case_cfg ''192.0.2.10:40000'' ''client.example.org'')
       ''x@EXAMPLE.COM'' =
     Inr ((Backend_NewSession mixed_case_cfg ''192.0.2.10:40000'' ''client.example.org'')
            \<lparr>to_addrs := [''x@example.com'']\<rparr>)"
  by (simp add: is_upper_def ToLower_EXAMPLE ToLower_Example ToLower_x_EXAMPLE
      Rcpt_def sample_lib_def Backend_NewSession_def NewSession_def sample_cfg_def
      mixed_case_cfg_def GetDomainMap_def map_index_def Let_def)

text \<open>
  C10, amended. The domain map holds exactly the configured strings, unfolded, and
  \<open>Rcpt\<close> looks up the lowercased domain only. So a configured domain \<open>D\<close> with an
  upper-case letter is never the key that is looked up, and every recipient whose
  domain equals \<open>D\<close> up to case is refused with "relay access denied", however the
  client spells it, unless the lowercase form of \<open>D\<close> is itself among the configured
  domains.
\<close>

theorem C10_uppercase_domain_rejected:
  assumes "domains s = GetDomainMap c"
    and "D \<in> set (Domains c)" and "list_ex is_upper D"
    and "ToLower D \<notin> set (Domains c)"
    and "mail_ParseAddress L rcpt = Some addr"
    and "Split addr CHR ''@'' = [lp, dn]"
    and "ToLower dn = ToLower D"
  shows "Rcpt L s rcpt = Inl (Errorf_s ''relay access denied for domain %s'' (ToLower D)) \<and>
         (\<forall>k. ToLower k \<noteq> D) \<and>
         (\<forall>k. map_index (GetDomainMap c) k \<longleftrightarrow> k \<in> set (Domains c))"
proof -
  have "\<And>k. ToLower k \<noteq> D"
    using assms(3) ToLower_no_upper by metis
  moreover have "\<not> map_index (domains s) (ToLower dn)"
    using assms(1,4,7) by (simp add: map_index_GetDomainMap)
  ultimately show ?thesis
    using assms(5,6,7) by (simp add: Rcpt_def Let_def map_index_GetDomainMap)
qed

theorem C10_witness:
  "domains (Backend_NewSession upper_only_cfg ''192.0.2.10:40000'' ''client.example.org'') =
     GetDomainMap upper_only_cfg \<and>
   ''Example.com'' \<in> set (Domains upper_only_cfg) \<and> list_ex is_upper ''Example.com'' \<and>
   ToLower ''Example.com'' \<notin> set (Domains upper_only_cfg) \<and>
   mail_ParseAddress sample_lib ''x@EXAMPLE.COM'' = Some ''x@EXAMPLE.COM'' \<and>
   Split ''x@EXAMPLE.COM'' CHR ''@'' = [''x'', ''EXAMPLE.COM''] \<and>
   ToLower ''EXAMPLE.COM'' = ToLower ''Example.com'' \<and>
   Rcpt sample_lib
       (Backend_NewSession upper_only_cfg ''192.0.2.10:40000'' ''client.example.org'')
       ''x@EXAMPLE.COM'' =
     Inl (Errorf_s ''relay access denied for domain %s'' ''example.com'')"
proof -
  let ?s = "Backend_NewSession upper_only_cfg ''192.0.2.10:40000'' ''client.example.org''"
  have h1: "domains ?s = GetDomainMap upper_only_cfg"
    by (simp add: Backend_NewSession_def NewSession_def)
  have h2: "''Example.com'' \<in> set (Domains upper_only_cfg)"
    by (simp add: upper_only_cfg_def)
  have h4: "ToLower ''Example.com'' \<notin> set (Domains upper_only_cfg)"
    by (simp add: upper_only_cfg_def ToLower_Example)
  have h5: "mail_ParseAddress sample_lib ''x@EXAMPLE.COM'' = Some ''x@EXAMPLE.COM''"
    by (simp add: sample_lib_def)
  have h6: "Split ''x@EXAMPLE.COM'' CHR ''@'' = [''x'', ''EXAMPLE.COM'']"
    by simp
  have h7: "ToLower ''EXAMPLE.COM'' = ToLower ''Example.com''"
    by (simp add: ToLower_EXAMPLE ToLower_Example)
  have "Rcpt sample_lib ?s ''x@EXAMPLE.COM'' =
          Inl (Errorf_s ''relay access denied for domain %s'' ''example.com'')"
    using C10_uppercase_domain_rejected [OF h1 h2 upper_in_Example h4 h5 h6 h7]
    by (simp add: ToLower_Example)
  with h1 h2 upper_in_Example h4 h5 h6 h7 show ?thesis
    by (intro conjI)
qed

section \<open>SPF\<close>

lemma Fields_spf_nonempty: "HasPrefix r ''v=spf1'' \<Longrightarrow> Fields r \<noteq> []"
proof -
  assume "HasPrefix r ''v=spf1''"
  then obtain t where "r = CHR ''v'' # t"
    using HasPrefix_Cons by blast
  then show ?thesis
    by (simp add: Fields_def fields_from_Nil_iff is_space_def)
qed

lemma spf_loop_first:
  "(\<forall>p \<in> set pre. spf_mechanism L ip p = None) \<Longrightarrow> spf_mechanism L ip m = Some r \<Longrightarrow>
     spf_loop L ip (pre @ m # post) = r"
  by (induction pre) auto

lemma spf_loop_none:
  "(\<forall>p \<in> set ms. spf_mechanism L ip p = None) \<Longrightarrow> spf_loop L ip ms = ''neutral''"
  by (induction ms) auto

text \<open>With a record found, the slice \<open>mechanisms[1:]\<close> is in range: no panic.\<close>

lemma validateSPF_record:
  assumes "extractDomain f \<noteq> []" "net_ParseIP L cip = Some ip"
    "net_LookupTXT L (extractDomain f) = Inr txts"
    "find (\<lambda>r. HasPrefix r ''v=spf1'') txts = Some rec"
  shows "validateSPF L cip helo f = Some (spf_loop L ip (tl (Fields rec)))"
proof -
  have "HasPrefix rec ''v=spf1''"
    using assms(4) find_Some_holds by fast
  then have "Fields rec \<noteq> []"
    by (rule Fields_spf_nonempty)
  then show ?thesis
    using assms
    by (cases "Fields rec")
      (simp_all add: validateSPF_def lookupSPFRecord_def evaluateBasicSPF_def Let_def)
qed

lemma validateSPF_no_record:
  assumes "\<forall>txts. net_LookupTXT L (extractDomain f) = Inr txts \<longrightarrow>
             \<not> list_ex (\<lambda>r. HasPrefix r ''v=spf1'') txts"
  shows "validateSPF L cip helo f = Some ''none''"
proof (cases "net_LookupTXT L (extractDomain f)")
  case (Inl e)
  then show ?thesis
    by (simp add: validateSPF_def lookupSPFRecord_def Let_def split: option.splits)
next
  case (Inr txts)
  with assms have "find (\<lambda>r. HasPrefix r ''v=spf1'') txts = None"
    by (simp add: find_None_list_ex)
  with Inr show ?thesis
    by (simp add: validateSPF_def lookupSPFRecord_def Let_def split: option.splits)
qed

lemma validateSPF_first_match:
  assumes "extractDomain f \<noteq> []" "net_ParseIP L cip = Some ip"
    "net_LookupTXT L (extractDomain f) = Inr txts"
    "find (\<lambda>r. HasPrefix r ''v=spf1'') txts = Some rec"
    "tl (Fields rec) = pre @ m # post"
    "\<forall>p \<in> set pre. spf_mechanism L ip p = None" "spf_mechanism L ip m = Some r"
  shows "validateSPF L cip helo f = Some r"
proof -
  have "validateSPF L cip helo f = Some (spf_loop L ip (pre @ m # post))"
    using validateSPF_record [OF assms(1-4)] assms(5) by simp
  also have "spf_loop L ip (pre @ m # post) = r"
    using assms(6,7) by (rule spf_loop_first)
  finally show ?thesis .
qed

lemma validateSPF_no_match:
  assumes "extractDomain f \<noteq> []" "net_ParseIP L cip = Some ip"
    "net_LookupTXT L (extractDomain f) = Inr txts"
    "find (\<lambda>r. HasPrefix r ''v=spf1'') txts = Some rec"
    "\<forall>p \<in> set (tl (Fields rec)). spf_mechanism L ip p = None"
  shows "validateSPF L cip helo f = Some ''neutral''"
proof -
  have "validateSPF L cip helo f = Some (spf_loop L ip (tl (Fields rec)))"
    using validateSPF_record [OF assms(1-4)] by simp
  also have "spf_loop L ip (tl (Fields rec)) = ''neutral''"
    using assms(5) by (rule spf_loop_none)
  finally show ?thesis .
qed

lemma spf_mechanism_table:
  "spf_mechanism L ip ''a'' = Some ''neutral''"
  "spf_mechanism L ip ''+a'' = Some ''neutral''"
  "spf_mechanism L ip ''-all'' = Some ''fail''"
  "spf_mechanism L ip ''~all'' = Some ''softfail''"
  "spf_mechanism L ip ''?all'' = Some ''neutral''"
  by (simp_all add: spf_mechanism_def)

lemma spf_mechanism_ip6:
  "spf_mechanism L ip (''ip6:'' @ r) = (if matchIP L ip r then Some ''pass'' else None)"
  using TrimPrefix_append [of "''ip6:''" r]
  by (simp add: spf_mechanism_def TrimPrefix_def)

lemma spf_mechanism_ip4:
  "\<not> HasPrefix r ''ip6:'' \<Longrightarrow>
     spf_mechanism L ip (''ip4:'' @ r) = (if matchIP L ip r then Some ''pass'' else None)"
  using TrimPrefix_append [of "''ip4:''" r]
  by (simp add: spf_mechanism_def TrimPrefix_def)

lemma Fields_S5:
  "Fields ''v=spf1 ip4:192.0.2.10 -all'' = [''v=spf1'', ''ip4:192.0.2.10'', ''-all'']"
  by code_simp

lemma S5_pass:
  assumes "extractDomain f \<noteq> []"
    "net_LookupTXT L (extractDomain f) = Inr txts"
    "find (\<lambda>r. HasPrefix r ''v=spf1'') txts = Some ''v=spf1 ip4:192.0.2.10 -all''"
    "net_ParseIP L ''192.0.2.10'' = Some a" "IP_Equal L a a"
  shows "validateSPF L ''192.0.2.10'' helo f = Some ''pass''"
proof -
  have "validateSPF L ''192.0.2.10'' helo f =
          Some (spf_loop L a [''ip4:192.0.2.10'', ''-all''])"
    using validateSPF_record [OF assms(1) assms(4) assms(2) assms(3)]
    by (simp add: Fields_S5)
  moreover have "matchIP L a ''192.0.2.10''"
    using assms(4,5) by (simp add: matchIP_def)
  then have "spf_mechanism L a ''ip4:192.0.2.10'' = Some ''pass''"
    using spf_mechanism_ip4 [of "''192.0.2.10''" L a] by simp
  ultimately show ?thesis by simp
qed

lemma S5_fail:
  assumes "extractDomain f \<noteq> []"
    "net_LookupTXT L (extractDomain f) = Inr txts"
    "find (\<lambda>r. HasPrefix r ''v=spf1'') txts = Some ''v=spf1 ip4:192.0.2.10 -all''"
    "net_ParseIP L ''192.0.2.10'' = Some a" "net_ParseIP L ''203.0.113.5'' = Some b"
    "\<not> IP_Equal L a b"
  shows "validateSPF L ''203.0.113.5'' helo f = Some ''fail''"
proof -
  have "validateSPF L ''203.0.113.5'' helo f =
          Some (spf_loop L b [''ip4:192.0.2.10'', ''-all''])"
    using validateSPF_record [OF assms(1) assms(5) assms(2) assms(3)]
    by (simp add: Fields_S5)
  moreover have "\<not> matchIP L b ''192.0.2.10''"
    using assms(4,6) by (simp add: matchIP_def)
  then have "spf_mechanism L b ''ip4:192.0.2.10'' = None"
    using spf_mechanism_ip4 [of "''192.0.2.10''" L b] by simp
  ultimately show ?thesis by (simp add: spf_mechanism_table)
qed

lemma matchIP_cidr:
  "CHR ''/'' \<in> set r \<Longrightarrow> net_ParseCIDR L r = Some n \<Longrightarrow>
     matchIP L ip r = IPNet_Contains L n ip"
  by (simp add: matchIP_def)

lemma matchIP_bad_cidr:
  "CHR ''/'' \<in> set r \<Longrightarrow> net_ParseCIDR L r = None \<Longrightarrow> \<not> matchIP L ip r"
  by (simp add: matchIP_def)

lemma matchIP_address:
  "CHR ''/'' \<notin> set r \<Longrightarrow> net_ParseIP L r = Some t \<Longrightarrow> matchIP L ip r = IP_Equal L t ip"
  by (simp add: matchIP_def)

lemma matchIP_bad_address:
  "CHR ''/'' \<notin> set r \<Longrightarrow> net_ParseIP L r = None \<Longrightarrow> \<not> matchIP L ip r"
  by (simp add: matchIP_def)

lemma spf_mechanism_ip4_ip6:
  "spf_mechanism L ip (''ip4:'' @ ''ip6:'' @ r) =
     (if matchIP L ip r then Some ''pass'' else None)"
  using TrimPrefix_append [of "''ip4:''" "''ip6:'' @ r"] TrimPrefix_append [of "''ip6:''" r]
  by (simp add: spf_mechanism_def)

lemma spf_mechanism_other:
  "\<not> HasPrefix m ''ip4:'' \<Longrightarrow> \<not> HasPrefix m ''ip6:'' \<Longrightarrow>
     m \<notin> set [''a'', ''+a'', ''-all'', ''~all'', ''?all''] \<Longrightarrow> spf_mechanism L ip m = None"
  by (simp add: spf_mechanism_def)

lemma Fields_net:
  "Fields ''v=spf1 include:_spf.example.org ip4:192.0.2.0/24 ~all'' =
     [''v=spf1'', ''include:_spf.example.org'', ''ip4:192.0.2.0/24'', ''~all'']"
  by code_simp

lemma extractDomain_net: "extractDomain ''sender@example.net'' = ''example.net''"
  by code_simp

text \<open>
  C3. \<open>validateSPF\<close> answers \<open>none\<close> when the envelope sender has no domain
  (\<open>extractDomain\<close> gives the empty string), when the peer address does not parse, and
  when the lookup fails or no TXT record starts with \<open>v=spf1\<close>. Otherwise it never
  panics and the mechanisms after the first field are scanned from the left: the first
  mechanism for which the loop body returns decides, and \<open>neutral\<close> is the answer when
  none does. The loop body returns \<open>pass\<close> for \<open>ip4:\<close>/\<open>ip6:\<close> with an address or
  CIDR range that \<open>matchIP\<close> accepts and goes on when it does not, returns
  \<open>neutral\<close> for \<open>a\<close> and \<open>+a\<close>, \<open>fail\<close> for \<open>-all\<close>, \<open>softfail\<close> for \<open>~all\<close>,
  \<open>neutral\<close> for \<open>?all\<close>, and goes on for every other mechanism. \<open>matchIP\<close> accepts a
  range with a slash exactly when it parses as a CIDR network that contains the peer
  address, and a range without a slash exactly when it parses as an address equal to
  the peer address. For the record \<open>v=spf1 ip4:192.0.2.10 -all\<close>, peer 192.0.2.10
  passes and peer 203.0.113.5 fails (\<open>a\<close> and \<open>b\<close> are what \<open>net.ParseIP\<close> returns
  for them).
\<close>

theorem C3_validateSPF:
  "(extractDomain f = [] \<longrightarrow> validateSPF L cip helo f = Some ''none'') \<and>
   (net_ParseIP L cip = None \<longrightarrow> validateSPF L cip helo f = Some ''none'') \<and>
   ((\<forall>txts. net_LookupTXT L (extractDomain f) = Inr txts \<longrightarrow>
        \<not> list_ex (\<lambda>r. HasPrefix r ''v=spf1'') txts) \<longrightarrow>
      validateSPF L cip helo f = Some ''none'') \<and>
   (extractDomain f \<noteq> [] \<and> net_ParseIP L cip = Some ip \<and>
    net_LookupTXT L (extractDomain f) = Inr txts \<and>
    find (\<lambda>r. HasPrefix r ''v=spf1'') txts = Some rec \<longrightarrow>
      (\<forall>pre m post r. tl (Fields rec) = pre @ m # post \<and>
          (\<forall>p \<in> set pre. spf_mechanism L ip p = None) \<and> spf_mechanism L ip m = Some r \<longrightarrow>
          validateSPF L cip helo f = Some r) \<and>
      ((\<forall>p \<in> set (tl (Fields rec)). spf_mechanism L ip p = None) \<longrightarrow>
          validateSPF L cip helo f = Some ''neutral'')) \<and>
   (\<forall>r. spf_mechanism L ip (''ip6:'' @ r) = (if matchIP L ip r then Some ''pass'' else None)) \<and>
   (\<forall>r. \<not> HasPrefix r ''ip6:'' \<longrightarrow>
      spf_mechanism L ip (''ip4:'' @ r) = (if matchIP L ip r then Some ''pass'' else None)) \<and>
   spf_mechanism L ip ''a'' = Some ''neutral'' \<and>
   spf_mechanism L ip ''+a'' = Some ''neutral'' \<and>
   spf_mechanism L ip ''-all'' = Some ''fail'' \<and>
   spf_mechanism L ip ''~all'' = Some ''softfail'' \<and>
   spf_mechanism L ip ''?all'' = Some ''neutral'' \<and>
   (extractDomain f \<noteq> [] \<and> net_LookupTXT L (extractDomain f) = Inr txts \<and>
    find (\<lambda>r. HasPrefix r ''v=spf1'') txts = Some ''v=spf1 ip4:192.0.2.10 -all'' \<and>
    net_ParseIP L ''192.0.2.10'' = Some a \<and> net_ParseIP L ''203.0.113.5'' = Some b \<and>
    IP_Equal L a a \<and> \<not> IP_Equal L a b \<longrightarrow>
      validateSPF L ''192.0.2.10'' helo f = Some ''pass'' \<and>
      validateSPF L ''203.0.113.5'' helo f = Some ''fail'') \<and>
   (\<forall>r n. CHR ''/'' \<in> set r \<and> net_ParseCIDR L r = Some n \<longrightarrow>
      matchIP L ip r = IPNet_Contains L n ip) \<and>
   (\<forall>r. CHR ''/'' \<in> set r \<and> net_ParseCIDR L r = None \<longrightarrow> \<not> matchIP L ip r) \<and>
   (\<forall>r t. CHR ''/'' \<notin> set r \<and> net_ParseIP L r = Some t \<longrightarrow>
      matchIP L ip r = IP_Equal L t ip) \<and>
   (\<forall>r. CHR ''/'' \<notin> set r \<and> net_ParseIP L r = None \<longrightarrow> \<not> matchIP L ip r) \<and>
   (\<forall>r. spf_mechanism L ip (''ip4:'' @ ''ip6:'' @ r) =
      (if matchIP L ip r then Some ''pass'' else None)) \<and>
   (\<forall>m. \<not> HasPrefix m ''ip4:'' \<and> \<not> HasPrefix m ''ip6:'' \<and>
      m \<notin> set [''a'', ''+a'', ''-all'', ''~all'', ''?all''] \<longrightarrow>
      spf_mechanism L ip m = None)"
proof -
  have c1: "extractDomain f = [] \<longrightarrow> validateSPF L cip helo f = Some ''none''"
    by (simp add: validateSPF_def)
  have c2: "net_ParseIP L cip = None \<longrightarrow> validateSPF L cip helo f = Some ''none''"
    by (simp add: validateSPF_def Let_def)
  have c3: "(\<forall>txts. net_LookupTXT L (extractDomain f) = Inr txts \<longrightarrow>
        \<not> list_ex (\<lambda>r. HasPrefix r ''v=spf1'') txts) \<longrightarrow>
      validateSPF L cip helo f = Some ''none''"
    by (intro impI) (rule validateSPF_no_record)
  have c4: "extractDomain f \<noteq> [] \<and> net_ParseIP L cip = Some ip \<and>
    net_LookupTXT L (extractDomain f) = Inr txts \<and>
    find (\<lambda>r. HasPrefix r ''v=spf1'') txts = Some rec \<longrightarrow>
      (\<forall>pre m post r. tl (Fields rec) = pre @ m # post \<and>
          (\<forall>p \<in> set pre. spf_mechanism L ip p = None) \<and> spf_mechanism L ip m = Some r \<longrightarrow>
          validateSPF L cip helo f = Some r) \<and>
      ((\<forall>p \<in> set (tl (Fields rec)). spf_mechanism L ip p = None) \<longrightarrow>
          validateSPF L cip helo f = Some ''neutral'')"
  proof (intro impI, elim conjE, intro conjI allI impI)
    fix pre m post r
    assume h: "extractDomain f \<noteq> []" "net_ParseIP L cip = Some ip"
      "net_LookupTXT L (extractDomain f) = Inr txts"
      "find (\<lambda>r. HasPrefix r ''v=spf1'') txts = Some rec"
    assume "tl (Fields rec) = pre @ m # post \<and>
          (\<forall>p \<in> set pre. spf_mechanism L ip p = None) \<and> spf_mechanism L ip m = Some r"
    then show "validateSPF L cip helo f = Some r"
      using validateSPF_first_match [OF h] by simp
  next
    assume h: "extractDomain f \<noteq> []" "net_ParseIP L cip = Some ip"
      "net_LookupTXT L (extractDomain f) = Inr txts"
      "find (\<lambda>r. HasPrefix r ''v=spf1'') txts = Some rec"
    assume "\<forall>p \<in> set (tl (Fields rec)). spf_mechanism L ip p = None"
    then show "validateSPF L cip helo f = Some ''neutral''"
      by (rule validateSPF_no_match [OF h])
  qed
  have c5: "\<forall>r. spf_mechanism L ip (''ip6:'' @ r) =
              (if matchIP L ip r then Some ''pass'' else None)"
    by (intro allI) (rule spf_mechanism_ip6)
  have c6: "\<forall>r. \<not> HasPrefix r ''ip6:'' \<longrightarrow>
      spf_mechanism L ip (''ip4:'' @ r) = (if matchIP L ip r then Some ''pass'' else None)"
    by (intro allI impI) (rule spf_mechanism_ip4)
  have c7: "extractDomain f \<noteq> [] \<and> net_LookupTXT L (extractDomain f) = Inr txts \<and>
    find (\<lambda>r. HasPrefix r ''v=spf1'') txts = Some ''v=spf1 ip4:192.0.2.10 -all'' \<and>
    net_ParseIP L ''192.0.2.10'' = Some a \<and> net_ParseIP L ''203.0.113.5'' = Some b \<and>
    IP_Equal L a a \<and> \<not> IP_Equal L a b \<longrightarrow>
      validateSPF L ''192.0.2.10'' helo f = Some ''pass'' \<and>
      validateSPF L ''203.0.113.5'' helo f = Some ''fail''"
  proof (intro impI, elim conjE, intro conjI)
    assume h: "extractDomain f \<noteq> []"
      "net_LookupTXT L (extractDomain f) = Inr txts"
      "find (\<lambda>r. HasPrefix r ''v=spf1'') txts = Some ''v=spf1 ip4:192.0.2.10 -all''"
      "net_ParseIP L ''192.0.2.10'' = Some a" "net_ParseIP L ''203.0.113.5'' = Some b"
      "IP_Equal L a a" "\<not> IP_Equal L a b"
    show "validateSPF L ''192.0.2.10'' helo f = Some ''pass''"
      by (rule S5_pass [OF h(1,2,3,4,6)])
    show "validateSPF L ''203.0.113.5'' helo f = Some ''fail''"
      by (rule S5_fail [OF h(1,2,3,4,5,7)])
  qed
  have c8: "\<forall>r n. CHR ''/'' \<in> set r \<and> net_ParseCIDR L r = Some n \<longrightarrow>
      matchIP L ip r = IPNet_Contains L n ip"
    by (simp add: matchIP_cidr)
  have c9: "\<forall>r. CHR ''/'' \<in> set r \<and> net_ParseCIDR L r = None \<longrightarrow> \<not> matchIP L ip r"
    by (simp add: matchIP_bad_cidr)
  have c10: "\<forall>r t. CHR ''/'' \<notin> set r \<and> net_ParseIP L r = Some t \<longrightarrow>
      matchIP L ip r = IP_Equal L t ip"
    by (simp add: matchIP_address)
  have c11: "\<forall>r. CHR ''/'' \<notin> set r \<and> net_ParseIP L r = None \<longrightarrow> \<not> matchIP L ip r"
    by (simp add: matchIP_bad_address)
  have c12: "\<forall>r. spf_mechanism L ip (''ip4:'' @ ''ip6:'' @ r) =
      (if matchIP L ip r then Some ''pass'' else None)"
    by (intro allI) (rule spf_mechanism_ip4_ip6)
  have c13: "\<forall>m. \<not> HasPrefix m ''ip4:'' \<and> \<not> HasPrefix m ''ip6:'' \<and>
      m \<notin> set [''a'', ''+a'', ''-all'', ''~all'', ''?all''] \<longrightarrow>
      spf_mechanism L ip m = None"
    by (intro allI impI, elim conjE) (rule spf_mechanism_other)
  from c1 c2 c3 c4 c5 c6 spf_mechanism_table [of L ip] c7 c8 c9 c10 c11 c12 c13
  show ?thesis
    by (intro conjI)
qed

lemma extractDomain_sender: "extractDomain ''<sender@example.com>'' = ''example.com''"
  by code_simp

lemma extractDomain_postmaster: "extractDomain ''postmaster'' = []"
  by code_simp

lemma extractDomain_org: "extractDomain ''sender@example.org'' = ''example.org''"
  by code_simp

text \<open>
  The witness runs \<open>validateSPF\<close> on \<open>sample_lib\<close>: for \<open>example.com\<close> the record is
  the second TXT record; for \<open>example.net\<close> an unknown mechanism is passed over and a
  CIDR range decides.
\<close>

theorem C3_witness:
  "validateSPF sample_lib ''192.0.2.10'' ''mail.example.com'' ''<sender@example.com>'' =
     Some ''pass'' \<and>
   validateSPF sample_lib ''203.0.113.5'' ''mail.example.com'' ''<sender@example.com>'' =
     Some ''fail'' \<and>
   validateSPF sample_lib ''192.0.2.10'' ''mail.example.com'' ''postmaster'' = Some ''none'' \<and>
   validateSPF sample_lib ''bogus'' ''mail.example.com'' ''<sender@example.com>'' =
     Some ''none'' \<and>
   validateSPF sample_lib ''192.0.2.10'' ''mail.example.com'' ''sender@example.org'' =
     Some ''none'' \<and>
   validateSPF sample_lib ''192.0.2.10'' ''mail.example.com'' ''sender@example.net'' =
     Some ''pass'' \<and>
   validateSPF sample_lib ''203.0.113.5'' ''mail.example.com'' ''sender@example.net'' =
     Some ''softfail''"
proof -
  let ?txts = "[''google-site-verification=abc'', ''v=spf1 ip4:192.0.2.10 -all'']"
  have d: "extractDomain ''<sender@example.com>'' \<noteq> []"
    by (simp add: extractDomain_sender)
  have t: "net_LookupTXT sample_lib (extractDomain ''<sender@example.com>'') = Inr ?txts"
    by (simp add: extractDomain_sender sample_lib_def)
  have r: "find (\<lambda>r. HasPrefix r ''v=spf1'') ?txts = Some ''v=spf1 ip4:192.0.2.10 -all''"
    by simp
  have a: "net_ParseIP sample_lib ''192.0.2.10'' = Some 3221225994"
    by (simp add: sample_lib_def)
  have b: "net_ParseIP sample_lib ''203.0.113.5'' = Some 3405803781"
    by (simp add: sample_lib_def)
  have e: "IP_Equal sample_lib 3221225994 3221225994"
    "\<not> IP_Equal sample_lib 3221225994 3405803781"
    by (simp_all add: sample_lib_def)
  have s5: "validateSPF sample_lib ''192.0.2.10'' ''mail.example.com'' ''<sender@example.com>'' =
      Some ''pass'' \<and>
    validateSPF sample_lib ''203.0.113.5'' ''mail.example.com'' ''<sender@example.com>'' =
      Some ''fail''"
    using C3_validateSPF [of "''<sender@example.com>''" sample_lib "''192.0.2.10''"
        "''mail.example.com''" 3221225994 ?txts "''v=spf1 ip4:192.0.2.10 -all''"
        3221225994 3405803781] d t r a b e
    by blast
  have n1: "validateSPF sample_lib ''192.0.2.10'' ''mail.example.com'' ''postmaster'' =
      Some ''none''"
    using C3_validateSPF [of "''postmaster''" sample_lib "''192.0.2.10''"
        "''mail.example.com''"] extractDomain_postmaster
    by blast
  have "net_ParseIP sample_lib ''bogus'' = None"
    by (simp add: sample_lib_def)
  then have n2: "validateSPF sample_lib ''bogus'' ''mail.example.com'' ''<sender@example.com>'' =
      Some ''none''"
    using C3_validateSPF [of "''<sender@example.com>''" sample_lib "''bogus''"
        "''mail.example.com''"]
    by blast
  have "\<forall>txts. net_LookupTXT sample_lib (extractDomain ''sender@example.org'') = Inr txts \<longrightarrow>
        \<not> list_ex (\<lambda>r. HasPrefix r ''v=spf1'') txts"
    by (simp add: extractDomain_org sample_lib_def)
  then have n3: "validateSPF sample_lib ''192.0.2.10'' ''mail.example.com''
      ''sender@example.org'' = Some ''none''"
    using C3_validateSPF [of "''sender@example.org''" sample_lib "''192.0.2.10''"
        "''mail.example.com''"]
    by blast
  have cidr: "validateSPF sample_lib ''192.0.2.10'' ''mail.example.com'' ''sender@example.net'' =
      Some ''pass'' \<and>
    validateSPF sample_lib ''203.0.113.5'' ''mail.example.com'' ''sender@example.net'' =
      Some ''softfail''"
  proof -
    let ?rec = "''v=spf1 include:_spf.example.org ip4:192.0.2.0/24 ~all''"
    let ?f = "''sender@example.net''"
    have d: "extractDomain ?f \<noteq> []"
      by (simp add: extractDomain_net)
    have t: "net_LookupTXT sample_lib (extractDomain ?f) = Inr [?rec]"
      by (simp add: extractDomain_net sample_lib_def)
    have r: "find (\<lambda>r. HasPrefix r ''v=spf1'') [?rec] = Some ?rec"
      by simp
    have a: "net_ParseIP sample_lib ''192.0.2.10'' = Some 3221225994"
      by (simp add: sample_lib_def)
    have b: "net_ParseIP sample_lib ''203.0.113.5'' = Some 3405803781"
      by (simp add: sample_lib_def)
    have slash: "CHR ''/'' \<in> set ''192.0.2.0/24''"
      by simp
    have cidr: "net_ParseCIDR sample_lib ''192.0.2.0/24'' = Some (3221225984, 24)"
      by (simp add: sample_lib_def)
    have inside: "IPNet_Contains sample_lib (3221225984, 24) 3221225994"
      "\<not> IPNet_Contains sample_lib (3221225984, 24) 3405803781"
      by (simp_all add: sample_lib_def)
    have other: "\<not> HasPrefix ''include:_spf.example.org'' ''ip4:''"
      "\<not> HasPrefix ''include:_spf.example.org'' ''ip6:''"
      "''include:_spf.example.org'' \<notin> set [''a'', ''+a'', ''-all'', ''~all'', ''?all'']"
      "\<not> HasPrefix ''192.0.2.0/24'' ''ip6:''"
      by simp_all
    have tl1: "tl (Fields ?rec) = [''include:_spf.example.org''] @ ''ip4:192.0.2.0/24'' # [''~all'']"
      by (simp add: Fields_net)
    have tl2: "tl (Fields ?rec) =
        [''include:_spf.example.org'', ''ip4:192.0.2.0/24''] @ ''~all'' # []"
      by (simp add: Fields_net)
    have ip4: "''ip4:192.0.2.0/24'' = ''ip4:'' @ ''192.0.2.0/24''"
      by simp
    have pass: "validateSPF sample_lib ''192.0.2.10'' ''mail.example.com'' ?f = Some ''pass''"
    proof -
      let ?ip = "3221225994 :: nat"
      note A = C3_validateSPF [of ?f sample_lib "''192.0.2.10''" "''mail.example.com''"
          ?ip "[?rec]" ?rec 0 0]
      have o: "\<forall>m. \<not> HasPrefix m ''ip4:'' \<and> \<not> HasPrefix m ''ip6:'' \<and>
          m \<notin> set [''a'', ''+a'', ''-all'', ''~all'', ''?all''] \<longrightarrow>
          spf_mechanism sample_lib ?ip m = None"
        using A by - (elim conjE, assumption)
      have c: "\<forall>r n. CHR ''/'' \<in> set r \<and> net_ParseCIDR sample_lib r = Some n \<longrightarrow>
          matchIP sample_lib ?ip r = IPNet_Contains sample_lib n ?ip"
        using A by - (elim conjE, assumption)
      have i: "\<forall>r. \<not> HasPrefix r ''ip6:'' \<longrightarrow>
          spf_mechanism sample_lib ?ip (''ip4:'' @ r) =
            (if matchIP sample_lib ?ip r then Some ''pass'' else None)"
        using A by - (elim conjE, assumption)
      have m: "extractDomain ?f \<noteq> [] \<and> net_ParseIP sample_lib ''192.0.2.10'' = Some ?ip \<and>
          net_LookupTXT sample_lib (extractDomain ?f) = Inr [?rec] \<and>
          find (\<lambda>r. HasPrefix r ''v=spf1'') [?rec] = Some ?rec \<longrightarrow>
          (\<forall>pre m post r. tl (Fields ?rec) = pre @ m # post \<and>
              (\<forall>p \<in> set pre. spf_mechanism sample_lib ?ip p = None) \<and>
              spf_mechanism sample_lib ?ip m = Some r \<longrightarrow>
              validateSPF sample_lib ''192.0.2.10'' ''mail.example.com'' ?f = Some r) \<and>
          ((\<forall>p \<in> set (tl (Fields ?rec)). spf_mechanism sample_lib ?ip p = None) \<longrightarrow>
              validateSPF sample_lib ''192.0.2.10'' ''mail.example.com'' ?f = Some ''neutral'')"
        using A by - (elim conjE, assumption)
      have 1: "spf_mechanism sample_lib ?ip ''include:_spf.example.org'' = None"
        using o [rule_format, of "''include:_spf.example.org''"] other(1-3) by (intro o [rule_format] conjI)
      have "matchIP sample_lib ?ip ''192.0.2.0/24'' = IPNet_Contains sample_lib (3221225984, 24) ?ip"
        by (intro c [rule_format] conjI slash cidr)
      with inside(1) have 2: "matchIP sample_lib ?ip ''192.0.2.0/24''"
        by simp
      have "spf_mechanism sample_lib ?ip (''ip4:'' @ ''192.0.2.0/24'') =
          (if matchIP sample_lib ?ip ''192.0.2.0/24'' then Some ''pass'' else None)"
        by (intro i [rule_format] other(4))
      with 2 have 3: "spf_mechanism sample_lib ?ip ''ip4:192.0.2.0/24'' = Some ''pass''"
        by simp
      have 4: "\<forall>p \<in> set [''include:_spf.example.org'']. spf_mechanism sample_lib ?ip p = None"
        using 1 by simp
      have hyp: "extractDomain ?f \<noteq> [] \<and> net_ParseIP sample_lib ''192.0.2.10'' = Some ?ip \<and>
          net_LookupTXT sample_lib (extractDomain ?f) = Inr [?rec] \<and>
          find (\<lambda>r. HasPrefix r ''v=spf1'') [?rec] = Some ?rec"
        using d a t r by (intro conjI)
      from m hyp have "(\<forall>pre m post r. tl (Fields ?rec) = pre @ m # post \<and>
              (\<forall>p \<in> set pre. spf_mechanism sample_lib ?ip p = None) \<and>
              spf_mechanism sample_lib ?ip m = Some r \<longrightarrow>
              validateSPF sample_lib ''192.0.2.10'' ''mail.example.com'' ?f = Some r) \<and>
          ((\<forall>p \<in> set (tl (Fields ?rec)). spf_mechanism sample_lib ?ip p = None) \<longrightarrow>
              validateSPF sample_lib ''192.0.2.10'' ''mail.example.com'' ?f = Some ''neutral'')"
        by (rule mp)
      then have first: "\<forall>pre m post r. tl (Fields ?rec) = pre @ m # post \<and>
              (\<forall>p \<in> set pre. spf_mechanism sample_lib ?ip p = None) \<and>
              spf_mechanism sample_lib ?ip m = Some r \<longrightarrow>
              validateSPF sample_lib ''192.0.2.10'' ''mail.example.com'' ?f = Some r"
        by (rule conjunct1)
      have "tl (Fields ?rec) = [''include:_spf.example.org''] @ ''ip4:192.0.2.0/24'' # [''~all''] \<and>
          (\<forall>p \<in> set [''include:_spf.example.org'']. spf_mechanism sample_lib ?ip p = None) \<and>
          spf_mechanism sample_lib ?ip ''ip4:192.0.2.0/24'' = Some ''pass''"
        using tl1 4 3 by (intro conjI)
      from first [rule_format, of "[''include:_spf.example.org'']" "''ip4:192.0.2.0/24''"
          "[''~all'']" "''pass''", OF this]
      show ?thesis .
    qed
    have soft: "validateSPF sample_lib ''203.0.113.5'' ''mail.example.com'' ?f = Some ''softfail''"
    proof -
      let ?ip = "3405803781 :: nat"
      note A = C3_validateSPF [of ?f sample_lib "''203.0.113.5''" "''mail.example.com''"
          ?ip "[?rec]" ?rec 0 0]
      have o: "\<forall>m. \<not> HasPrefix m ''ip4:'' \<and> \<not> HasPrefix m ''ip6:'' \<and>
          m \<notin> set [''a'', ''+a'', ''-all'', ''~all'', ''?all''] \<longrightarrow>
          spf_mechanism sample_lib ?ip m = None"
        using A by - (elim conjE, assumption)
      have c: "\<forall>r n. CHR ''/'' \<in> set r \<and> net_ParseCIDR sample_lib r = Some n \<longrightarrow>
          matchIP sample_lib ?ip r = IPNet_Contains sample_lib n ?ip"
        using A by - (elim conjE, assumption)
      have i: "\<forall>r. \<not> HasPrefix r ''ip6:'' \<longrightarrow>
          spf_mechanism sample_lib ?ip (''ip4:'' @ r) =
            (if matchIP sample_lib ?ip r then Some ''pass'' else None)"
        using A by - (elim conjE, assumption)
      have m: "extractDomain ?f \<noteq> [] \<and> net_ParseIP sample_lib ''203.0.113.5'' = Some ?ip \<and>
          net_LookupTXT sample_lib (extractDomain ?f) = Inr [?rec] \<and>
          find (\<lambda>r. HasPrefix r ''v=spf1'') [?rec] = Some ?rec \<longrightarrow>
          (\<forall>pre m post r. tl (Fields ?rec) = pre @ m # post \<and>
              (\<forall>p \<in> set pre. spf_mechanism sample_lib ?ip p = None) \<and>
              spf_mechanism sample_lib ?ip m = Some r \<longrightarrow>
              validateSPF sample_lib ''203.0.113.5'' ''mail.example.com'' ?f = Some r) \<and>
          ((\<forall>p \<in> set (tl (Fields ?rec)). spf_mechanism sample_lib ?ip p = None) \<longrightarrow>
              validateSPF sample_lib ''203.0.113.5'' ''mail.example.com'' ?f = Some ''neutral'')"
        using A by - (elim conjE, assumption)
      have 1: "spf_mechanism sample_lib ?ip ''include:_spf.example.org'' = None"
        using o [rule_format, of "''include:_spf.example.org''"] other(1-3) by (intro o [rule_format] conjI)
      have "matchIP sample_lib ?ip ''192.0.2.0/24'' = IPNet_Contains sample_lib (3221225984, 24) ?ip"
        by (intro c [rule_format] conjI slash cidr)
      with inside(2) have 2: "\<not> matchIP sample_lib ?ip ''192.0.2.0/24''"
        by simp
      have "spf_mechanism sample_lib ?ip (''ip4:'' @ ''192.0.2.0/24'') =
          (if matchIP sample_lib ?ip ''192.0.2.0/24'' then Some ''pass'' else None)"
        by (intro i [rule_format] other(4))
      with 2 have 3: "spf_mechanism sample_lib ?ip ''ip4:192.0.2.0/24'' = None"
        by simp
      have 4: "\<forall>p \<in> set [''include:_spf.example.org'', ''ip4:192.0.2.0/24''].
          spf_mechanism sample_lib ?ip p = None"
        using 1 3 by simp
      have 5: "spf_mechanism sample_lib ?ip ''~all'' = Some ''softfail''"
        using A by - (elim conjE, assumption)
      have hyp: "extractDomain ?f \<noteq> [] \<and> net_ParseIP sample_lib ''203.0.113.5'' = Some ?ip \<and>
          net_LookupTXT sample_lib (extractDomain ?f) = Inr [?rec] \<and>
          find (\<lambda>r. HasPrefix r ''v=spf1'') [?rec] = Some ?rec"
        using d b t r by (intro conjI)
      from m hyp have "(\<forall>pre m post r. tl (Fields ?rec) = pre @ m # post \<and>
              (\<forall>p \<in> set pre. spf_mechanism sample_lib ?ip p = None) \<and>
              spf_mechanism sample_lib ?ip m = Some r \<longrightarrow>
              validateSPF sample_lib ''203.0.113.5'' ''mail.example.com'' ?f = Some r) \<and>
          ((\<forall>p \<in> set (tl (Fields ?rec)). spf_mechanism sample_lib ?ip p = None) \<longrightarrow>
              validateSPF sample_lib ''203.0.113.5'' ''mail.example.com'' ?f = Some ''neutral'')"
        by (rule mp)
      then have first: "\<forall>pre m post r. tl (Fields ?rec) = pre @ m # post \<and>
              (\<forall>p \<in> set pre. spf_mechanism sample_lib ?ip p = None) \<and>
              spf_mechanism sample_lib ?ip m = Some r \<longrightarrow>
              validateSPF sample_lib ''203.0.113.5'' ''mail.example.com'' ?f = Some r"
        by (rule conjunct1)
      have "tl (Fields ?rec) =
            [''include:_spf.example.org'', ''ip4:192.0.2.0/24''] @ ''~all'' # [] \<and>
          (\<forall>p \<in> set [''include:_spf.example.org'', ''ip4:192.0.2.0/24''].
              spf_mechanism sample_lib ?ip p = None) \<and>
          spf_mechanism sample_lib ?ip ''~all'' = Some ''softfail''"
        using tl2 4 5 by (intro conjI)
      from first [rule_format, of "[''include:_spf.example.org'', ''ip4:192.0.2.0/24'']"
          "''~all''" "[]" "''softfail''", OF this]
      show ?thesis .
    qed
    from pass soft show ?thesis by (intro conjI)
  qed
  from s5 n1 n2 n3 cidr show ?thesis by (intro conjI) simp_all
qed


section \<open>DMARC\<close>

lemma validateDMARC_record:
  assumes "domain \<noteq> []" "net_LookupTXT L (''_dmarc.'' @ domain) = Inr txts"
    "list_ex (\<lambda>r. HasPrefix r ''v=DMARC1'') txts"
  shows "validateDMARC L domain spf dkim =
           (if spf = ''pass'' \<or> dkim = Some True then ''pass'' else ''fail'')"
proof -
  obtain rec where "find (\<lambda>r. HasPrefix r ''v=DMARC1'') txts = Some rec"
    using assms(3) find_None_list_ex [of "\<lambda>r. HasPrefix r ''v=DMARC1''" txts] by fastforce
  then show ?thesis
    using assms(1,2) by (simp add: validateDMARC_def lookupDMARCRecord_def Let_def)
qed

lemma validateDMARC_no_record:
  assumes "\<forall>txts. net_LookupTXT L (''_dmarc.'' @ domain) = Inr txts \<longrightarrow>
             \<not> list_ex (\<lambda>r. HasPrefix r ''v=DMARC1'') txts"
  shows "validateDMARC L domain spf dkim = ''none''"
proof (cases "net_LookupTXT L (''_dmarc.'' @ domain)")
  case (Inl e)
  then show ?thesis
    by (simp add: validateDMARC_def lookupDMARCRecord_def Let_def)
next
  case (Inr txts)
  with assms have "find (\<lambda>r. HasPrefix r ''v=DMARC1'') txts = None"
    by (simp add: find_None_list_ex)
  with Inr show ?thesis
    by (simp add: validateDMARC_def lookupDMARCRecord_def Let_def)
qed

lemma ValidateEmail_DMARC:
  assumes "ValidateEmail L vcfg raw f cip helo = Some vr"
  shows "v_DMARCResult vr =
           (if CheckDMARC vcfg
            then validateDMARC L (extractDomain f) (v_SPFResult vr) (v_DKIMValid vr)
            else ''none'')"
  using assms
  by (auto simp add: ValidateEmail_def Let_def split: option.splits if_splits)

text \<open>
  C4. \<open>validateDMARC\<close> answers \<open>none\<close> for an empty domain, and when the lookup at
  \<open>_dmarc.<domain>\<close> fails or returns no record that starts with \<open>v=DMARC1\<close>. With
  such a record it answers \<open>pass\<close> exactly when the SPF result is \<open>pass\<close> or the
  DKIM result is true, and \<open>fail\<close> exactly otherwise. \<open>ValidateEmail\<close> calls it with
  the domain of the envelope sender and the SPF and DKIM results it has just computed.
\<close>

theorem C4_validateDMARC:
  "(domain = [] \<longrightarrow> validateDMARC L domain spf dkim = ''none'') \<and>
   ((\<forall>txts. net_LookupTXT L (''_dmarc.'' @ domain) = Inr txts \<longrightarrow>
        \<not> list_ex (\<lambda>r. HasPrefix r ''v=DMARC1'') txts) \<longrightarrow>
      validateDMARC L domain spf dkim = ''none'') \<and>
   (domain \<noteq> [] \<and> net_LookupTXT L (''_dmarc.'' @ domain) = Inr txts \<and>
    list_ex (\<lambda>r. HasPrefix r ''v=DMARC1'') txts \<longrightarrow>
      (validateDMARC L domain spf dkim = ''pass'' \<longleftrightarrow> spf = ''pass'' \<or> dkim = Some True) \<and>
      (validateDMARC L domain spf dkim = ''fail'' \<longleftrightarrow>
         \<not> (spf = ''pass'' \<or> dkim = Some True))) \<and>
   (CheckDMARC vcfg \<and> ValidateEmail L vcfg raw f cip helo = Some vr \<longrightarrow>
      v_DMARCResult vr =
        validateDMARC L (extractDomain f) (v_SPFResult vr) (v_DKIMValid vr))"
proof -
  have c1: "domain = [] \<longrightarrow> validateDMARC L domain spf dkim = ''none''"
    by (simp add: validateDMARC_def)
  have c2: "(\<forall>txts. net_LookupTXT L (''_dmarc.'' @ domain) = Inr txts \<longrightarrow>
        \<not> list_ex (\<lambda>r. HasPrefix r ''v=DMARC1'') txts) \<longrightarrow>
      validateDMARC L domain spf dkim = ''none''"
    by (intro impI) (rule validateDMARC_no_record)
  have c3: "domain \<noteq> [] \<and> net_LookupTXT L (''_dmarc.'' @ domain) = Inr txts \<and>
    list_ex (\<lambda>r. HasPrefix r ''v=DMARC1'') txts \<longrightarrow>
      (validateDMARC L domain spf dkim = ''pass'' \<longleftrightarrow> spf = ''pass'' \<or> dkim = Some True) \<and>
      (validateDMARC L domain spf dkim = ''fail'' \<longleftrightarrow>
         \<not> (spf = ''pass'' \<or> dkim = Some True))"
  proof (intro impI, elim conjE)
    assume h: "domain \<noteq> []" "net_LookupTXT L (''_dmarc.'' @ domain) = Inr txts"
      "list_ex (\<lambda>r. HasPrefix r ''v=DMARC1'') txts"
    show "(validateDMARC L domain spf dkim = ''pass'' \<longleftrightarrow> spf = ''pass'' \<or> dkim = Some True) \<and>
      (validateDMARC L domain spf dkim = ''fail'' \<longleftrightarrow>
         \<not> (spf = ''pass'' \<or> dkim = Some True))"
      by (simp add: validateDMARC_record [OF h])
  qed
  have c4: "CheckDMARC vcfg \<and> ValidateEmail L vcfg raw f cip helo = Some vr \<longrightarrow>
      v_DMARCResult vr =
        validateDMARC L (extractDomain f) (v_SPFResult vr) (v_DKIMValid vr)"
    using ValidateEmail_DMARC [of L vcfg raw f cip helo vr] by simp
  from c1 c2 c3 c4 show ?thesis by (intro conjI)
qed

lemma dmarc_name: "''_dmarc.'' @ ''example.com'' = ''_dmarc.example.com''"
  by simp

theorem C4_witness:
  "validateDMARC sample_lib ''example.com'' ''pass'' (Some False) = ''pass'' \<and>
   validateDMARC sample_lib ''example.com'' ''fail'' (Some True) = ''pass'' \<and>
   validateDMARC sample_lib ''example.com'' ''softfail'' None = ''fail'' \<and>
   validateDMARC sample_lib [] ''pass'' (Some True) = ''none'' \<and>
   validateDMARC sample_lib ''example.org'' ''pass'' (Some True) = ''none''"
proof -
  have t: "net_LookupTXT sample_lib (''_dmarc.'' @ ''example.com'') = Inr [''v=DMARC1; p=none'']"
    by (simp add: sample_lib_def)
  have r: "list_ex (\<lambda>r. HasPrefix r ''v=DMARC1'') [''v=DMARC1; p=none'']"
    by simp
  have d: "''example.com'' \<noteq> []"
    by simp
  have p1: "validateDMARC sample_lib ''example.com'' ''pass'' (Some False) = ''pass''"
    using C4_validateDMARC [of "''example.com''" sample_lib "''pass''" "Some False"
        "[''v=DMARC1; p=none'']"] t r d
    by blast
  have p2: "validateDMARC sample_lib ''example.com'' ''fail'' (Some True) = ''pass''"
    using C4_validateDMARC [of "''example.com''" sample_lib "''fail''" "Some True"
        "[''v=DMARC1; p=none'']"] t r d
    by blast
  have "\<not> (''softfail'' = ''pass'' \<or> (None :: bool option) = Some True)"
    by simp
  then have p3: "validateDMARC sample_lib ''example.com'' ''softfail'' None = ''fail''"
    using C4_validateDMARC [of "''example.com''" sample_lib "''softfail''" None
        "[''v=DMARC1; p=none'']"] t r d
    by blast
  have p4: "validateDMARC sample_lib [] ''pass'' (Some True) = ''none''"
    using C4_validateDMARC [of "[]" sample_lib "''pass''" "Some True"]
    by blast
  have "\<forall>txts. net_LookupTXT sample_lib (''_dmarc.'' @ ''example.org'') = Inr txts \<longrightarrow>
        \<not> list_ex (\<lambda>r. HasPrefix r ''v=DMARC1'') txts"
    by (simp add: sample_lib_def)
  then have p5: "validateDMARC sample_lib ''example.org'' ''pass'' (Some True) = ''none''"
    using C4_validateDMARC [of "''example.org''" sample_lib "''pass''" "Some True"]
    by blast
  from p1 p2 p3 p4 p5 show ?thesis by (intro conjI)
qed

section \<open>The store transaction\<close>

lemma insert_attachments_Inr:
  "insert_attachments F i tx emailID atts = Inr tx' \<longleftrightarrow>
     (\<forall>j < length atts. F (InsertAttachment (i + j)) = None) \<and>
     tx' = tx\<lparr>attachments := attachments tx @ map (attachment_row_of emailID) atts\<rparr>"
proof (induction atts arbitrary: i tx)
  case Nil
  then show ?case by auto
next
  case (Cons att rest)
  have *: "(\<forall>j < Suc (length rest). F (InsertAttachment (i + j)) = None) \<longleftrightarrow>
        F (InsertAttachment i) = None \<and>
        (\<forall>j < length rest. F (InsertAttachment (Suc i + j)) = None)"
    by (auto simp add: less_Suc_eq_0_disj)
  show ?case
    by (cases "F (InsertAttachment i)") (simp_all add: Cons.IH *)
qed

lemma insert_attachments_Inl:
  "insert_attachments F i tx emailID atts = Inl err \<Longrightarrow>
     \<exists>j < length atts. F (InsertAttachment (i + j)) = Some err"
proof (induction atts arbitrary: i tx)
  case Nil
  then show ?case by simp
next
  case (Cons att rest)
  show ?case
  proof (cases "F (InsertAttachment i)")
    case None
    with Cons.prems have "insert_attachments F (Suc i)
            (tx\<lparr>attachments := attachments tx @ [attachment_row_of emailID att]\<rparr>)
            emailID rest = Inl err"
      by simp
    from Cons.IH [OF this] obtain j
      where "j < length rest" "F (InsertAttachment (Suc i + j)) = Some err"
      by blast
    then have "Suc j < length (att # rest) \<and> F (InsertAttachment (i + Suc j)) = Some err"
      by simp
    then show ?thesis by blast
  next
    case (Some e)
    with Cons.prems have "e = err" by simp
    with Some have "0 < length (att # rest) \<and> F (InsertAttachment (i + 0)) = Some err"
      by simp
    then show ?thesis by blast
  qed
qed

lemma StoreEmail_ok:
  "StoreEmail F db email atts = (db', None) \<longleftrightarrow>
     F Begin = None \<and> F InsertEmail = None \<and> F SelectAddress = None \<and>
     F InsertRecipient = None \<and> (\<forall>j < length atts. F (InsertAttachment j) = None) \<and>
     F Commit = None \<and>
     (\<exists>row. find (\<lambda>r. addr_email r = ToLower (ToAddr email)) (addresses db) = Some row \<and>
        db' = committed_store db email atts (addr_id row))"
  apply (simp add: StoreEmail_def insert_email_def insert_recipient_def tx_Commit_def
      Rollback_def Let_def committed_store_def
      split: option.splits sum.splits prod.splits)
  apply (auto simp add: getAddress_def select_address_id_def Let_def insert_attachments_Inr
      split: option.splits if_splits dest!: insert_attachments_Inl)
  done

lemma StoreEmail_error:
  assumes "StoreEmail F db email atts = (db', Some err)"
  shows "db' = db \<and>
     (\<exists>m cause. err = Wrapf m cause \<and>
        ((\<exists>st. F st = Some cause) \<or>
         cause = Errorf_s ''address does not exist: %s'' (ToLower (ToAddr email)) \<or>
         (\<exists>d. F SelectAddress = Some d \<and> cause = Wrapf ''failed to query address'' d)))"
  using assms
  apply (simp add: StoreEmail_def insert_email_def insert_recipient_def tx_Commit_def
      Rollback_def Let_def
      split: option.splits sum.splits prod.splits)
       apply (auto simp add: getAddress_def select_address_id_def Let_def
      split: option.splits if_splits sum.splits dest!: insert_attachments_Inl)
  done


lemma find_Some_list_ex: "(\<exists>r. find P xs = Some r) \<longleftrightarrow> list_ex P xs"
  using find_None_list_ex [of P xs] by (cases "find P xs") simp_all

lemma insert_attachments_first_failure:
  "j < length atts \<Longrightarrow> (\<forall>i < j. F (InsertAttachment (k + i)) = None) \<Longrightarrow>
     F (InsertAttachment (k + j)) = Some e \<Longrightarrow>
     insert_attachments F k tx emailID atts = Inl e"
proof (induction atts arbitrary: j k tx)
  case Nil
  then show ?case by simp
next
  case (Cons att rest)
  show ?case
  proof (cases j)
    case 0
    with Cons.prems show ?thesis by simp
  next
    case (Suc j')
    with Cons.prems have first: "F (InsertAttachment k) = None"
      by (metis add.right_neutral zero_less_Suc)
    have "j' < length rest"
      using Cons.prems(1) Suc by simp
    moreover have "\<forall>i < j'. F (InsertAttachment (Suc k + i)) = None"
      using Cons.prems(2) Suc by (metis Suc_less_eq add_Suc_shift)
    moreover have "F (InsertAttachment (Suc k + j')) = Some e"
      using Cons.prems(3) Suc by simp
    ultimately have "insert_attachments F (Suc k)
        (tx\<lparr>attachments := attachments tx @ [attachment_row_of emailID att]\<rparr>) emailID rest =
        Inl e"
      by (rule Cons.IH)
    with first show ?thesis by simp
  qed
qed

lemma getAddress_found:
  "F SelectAddress = None \<Longrightarrow> list_ex (\<lambda>a. addr_email a = ToLower e) (addresses tx) \<Longrightarrow>
     \<exists>aid. getAddress F tx e = Inr aid"
  using find_Some_list_ex [of "\<lambda>a. addr_email a = ToLower e" "addresses tx"]
  by (auto simp add: getAddress_def select_address_id_def Let_def)

lemma StoreEmail_begin_fails:
  "F Begin = Some e \<Longrightarrow>
     StoreEmail F db email atts = (db, Some (Wrapf ''failed to begin transaction'' e))"
  by (simp add: StoreEmail_def)

lemma StoreEmail_insert_fails:
  "F Begin = None \<Longrightarrow> F InsertEmail = Some e \<Longrightarrow>
     StoreEmail F db email atts = (db, Some (Wrapf ''failed to insert email'' e))"
  by (simp add: StoreEmail_def insert_email_def Rollback_def)

lemma StoreEmail_query_fails:
  "F Begin = None \<Longrightarrow> F InsertEmail = None \<Longrightarrow> F SelectAddress = Some e \<Longrightarrow>
     e \<noteq> ErrNoRows \<Longrightarrow>
     StoreEmail F db email atts =
       (db, Some (Wrapf ''failed to get address'' (Wrapf ''failed to query address'' e)))"
  by (simp add: StoreEmail_def insert_email_def Rollback_def getAddress_def
      select_address_id_def Let_def)

lemma StoreEmail_mailbox_missing:
  "F Begin = None \<Longrightarrow> F InsertEmail = None \<Longrightarrow>
     F SelectAddress = Some ErrNoRows \<or>
     (F SelectAddress = None \<and>
      \<not> list_ex (\<lambda>a. addr_email a = ToLower (ToAddr email)) (addresses db)) \<Longrightarrow>
     StoreEmail F db email atts =
       (db, Some (Wrapf ''failed to get address''
          (Errorf_s ''address does not exist: %s'' (ToLower (ToAddr email)))))"
  using find_None_list_ex [of "\<lambda>a. addr_email a = ToLower (ToAddr email)" "addresses db"]
  by (auto simp add: StoreEmail_def insert_email_def Rollback_def getAddress_def
      select_address_id_def Let_def)

lemma StoreEmail_link_fails:
  assumes "lookup_succeeds F db email" "F InsertRecipient = Some e"
  shows "StoreEmail F db email atts =
       (db, Some (Wrapf ''failed to link email to address'' e))"
proof -
  from assms(1) have b: "F Begin = None" "F InsertEmail = None"
    by (simp_all add: lookup_succeeds_def)
  from assms(1) obtain aid where
    "getAddress F (db\<lparr>emails := emails db @ [email_row_of (fresh_uuid db) email]\<rparr>)
       (ToAddr email) = Inr aid"
    using getAddress_found [of F "ToAddr email"
        "db\<lparr>emails := emails db @ [email_row_of (fresh_uuid db) email]\<rparr>"]
    by (auto simp add: lookup_succeeds_def)
  with b assms(2) show ?thesis
    by (simp add: StoreEmail_def insert_email_def insert_recipient_def Rollback_def Let_def)
qed

lemma StoreEmail_attachment_fails:
  assumes "lookup_succeeds F db email" "F InsertRecipient = None"
    "j < length atts" "\<forall>i < j. F (InsertAttachment i) = None"
    "F (InsertAttachment j) = Some e"
  shows "StoreEmail F db email atts = (db, Some (Wrapf ''failed to insert attachment'' e))"
proof -
  from assms(1) have b: "F Begin = None" "F InsertEmail = None"
    by (simp_all add: lookup_succeeds_def)
  from assms(1) obtain aid where
    g: "getAddress F (db\<lparr>emails := emails db @ [email_row_of (fresh_uuid db) email]\<rparr>)
       (ToAddr email) = Inr aid"
    using getAddress_found [of F "ToAddr email"
        "db\<lparr>emails := emails db @ [email_row_of (fresh_uuid db) email]\<rparr>"]
    by (auto simp add: lookup_succeeds_def)
  have "\<And>tx. insert_attachments F 0 tx (fresh_uuid db) atts = Inl e"
    using insert_attachments_first_failure [of j atts F 0 e] assms(3,4,5) by simp
  with b g assms(2) show ?thesis
    by (simp add: StoreEmail_def insert_email_def insert_recipient_def Rollback_def Let_def)
qed

lemma StoreEmail_commit_fails:
  assumes "lookup_succeeds F db email" "F InsertRecipient = None"
    "\<forall>i < length atts. F (InsertAttachment i) = None" "F Commit = Some e"
  shows "StoreEmail F db email atts = (db, Some (Wrapf ''failed to commit transaction'' e))"
proof -
  from assms(1) have b: "F Begin = None" "F InsertEmail = None"
    by (simp_all add: lookup_succeeds_def)
  from assms(1) obtain aid where
    g: "getAddress F (db\<lparr>emails := emails db @ [email_row_of (fresh_uuid db) email]\<rparr>)
       (ToAddr email) = Inr aid"
    using getAddress_found [of F "ToAddr email"
        "db\<lparr>emails := emails db @ [email_row_of (fresh_uuid db) email]\<rparr>"]
    by (auto simp add: lookup_succeeds_def)
  have "\<And>tx. \<exists>tx'. insert_attachments F 0 tx (fresh_uuid db) atts = Inr tx'"
    using assms(3) by (simp add: insert_attachments_Inr)
  then obtain tx' where "insert_attachments F 0
      (db\<lparr>emails := emails db @ [email_row_of (fresh_uuid db) email],
          email_recipients := email_recipients db @
            [\<lparr>email_id = fresh_uuid db, address_id = aid\<rparr>]\<rparr>)
      (fresh_uuid db) atts = Inr tx'"
    by blast
  with b g assms(2,4) show ?thesis
    by (simp add: StoreEmail_def insert_email_def insert_recipient_def tx_Commit_def
        Rollback_def Let_def)
qed

text \<open>
  C2, as stated, fails in its last part: the error of a failed step is not surfaced
  unchanged. When the insert into \<open>emails\<close> fails with a driver error, \<open>StoreEmail\<close>
  leaves the tables as they were and returns that error wrapped in
  "failed to insert email".
\<close>

theorem C2_counterexample:
  "insert_fails InsertEmail = Some (DriverError ''connection reset'') \<and>
   StoreEmail insert_fails sample_db sample_email [] =
     (sample_db, Some (Wrapf ''failed to insert email'' (DriverError ''connection reset''))) \<and>
   Wrapf ''failed to insert email'' (DriverError ''connection reset'') \<noteq>
     DriverError ''connection reset''"
  by (simp add: StoreEmail_def insert_fails_def no_faults_def insert_email_def Rollback_def)

text \<open>
  C2, amended. \<open>StoreEmail\<close> is atomic: it returns \<open>nil\<close> exactly when the begin, the
  insert into \<open>emails\<close>, the lookup of the mailbox id, the insert of the recipient link,
  every attachment insert and the commit all succeed, and then the committed tables
  have gained exactly the message row, the link and the attachment rows. If any step
  fails, the committed tables are unchanged (the transaction is rolled back) and the
  caller gets the error of the first failing step wrapped in the message of that step
  (\<open>fmt.Errorf\<close> with \<open>%w\<close>), not the error itself: "failed to begin transaction",
  "failed to insert email", "failed to get address" (around "failed to query address"
  and the driver's error, or around a new "address does not exist" error when the
  lookup finds no row), "failed to link email to address", "failed to insert
  attachment" for the first attachment that fails, "failed to commit transaction".
\<close>

theorem C2_StoreEmail_atomic:
  assumes "StoreEmail F db email atts = (db', r)"
  shows "(r = None \<longleftrightarrow> no_step_fails F db email atts) \<and>
     (r = None \<longrightarrow>
        (\<exists>row. find (\<lambda>a. addr_email a = ToLower (ToAddr email)) (addresses db) = Some row \<and>
           db' = committed_store db email atts (addr_id row))) \<and>
     (\<forall>err. r = Some err \<longrightarrow>
        db' = db \<and>
        (\<exists>m cause. err = Wrapf m cause \<and>
           ((\<exists>st. F st = Some cause) \<or>
            cause = Errorf_s ''address does not exist: %s'' (ToLower (ToAddr email)) \<or>
            (\<exists>d. F SelectAddress = Some d \<and> cause = Wrapf ''failed to query address'' d)))) \<and>
     (\<forall>e. F Begin = Some e \<longrightarrow>
        db' = db \<and> r = Some (Wrapf ''failed to begin transaction'' e)) \<and>
     (\<forall>e. F Begin = None \<and> F InsertEmail = Some e \<longrightarrow>
        db' = db \<and> r = Some (Wrapf ''failed to insert email'' e)) \<and>
     (\<forall>e. F Begin = None \<and> F InsertEmail = None \<and> F SelectAddress = Some e \<and>
        e \<noteq> ErrNoRows \<longrightarrow>
        db' = db \<and>
        r = Some (Wrapf ''failed to get address'' (Wrapf ''failed to query address'' e))) \<and>
     (F Begin = None \<and> F InsertEmail = None \<and>
      (F SelectAddress = Some ErrNoRows \<or>
       (F SelectAddress = None \<and>
        \<not> list_ex (\<lambda>a. addr_email a = ToLower (ToAddr email)) (addresses db))) \<longrightarrow>
        db' = db \<and>
        r = Some (Wrapf ''failed to get address''
              (Errorf_s ''address does not exist: %s'' (ToLower (ToAddr email))))) \<and>
     (\<forall>e. lookup_succeeds F db email \<and> F InsertRecipient = Some e \<longrightarrow>
        db' = db \<and> r = Some (Wrapf ''failed to link email to address'' e)) \<and>
     (\<forall>e j. lookup_succeeds F db email \<and> F InsertRecipient = None \<and> j < length atts \<and>
        (\<forall>i < j. F (InsertAttachment i) = None) \<and> F (InsertAttachment j) = Some e \<longrightarrow>
        db' = db \<and> r = Some (Wrapf ''failed to insert attachment'' e)) \<and>
     (\<forall>e. lookup_succeeds F db email \<and> F InsertRecipient = None \<and>
        (\<forall>i < length atts. F (InsertAttachment i) = None) \<and> F Commit = Some e \<longrightarrow>
        db' = db \<and> r = Some (Wrapf ''failed to commit transaction'' e))"
proof -
  have old: "(r = None \<longleftrightarrow> no_step_fails F db email atts) \<and>
     (r = None \<longrightarrow>
        (\<exists>row. find (\<lambda>a. addr_email a = ToLower (ToAddr email)) (addresses db) = Some row \<and>
           db' = committed_store db email atts (addr_id row))) \<and>
     (\<forall>err. r = Some err \<longrightarrow>
        db' = db \<and>
        (\<exists>m cause. err = Wrapf m cause \<and>
           ((\<exists>st. F st = Some cause) \<or>
            cause = Errorf_s ''address does not exist: %s'' (ToLower (ToAddr email)) \<or>
            (\<exists>d. F SelectAddress = Some d \<and> cause = Wrapf ''failed to query address'' d))))"
  proof (cases r)
    case None
    with assms have ok: "StoreEmail F db email atts = (db', None)"
      by simp
    then have "no_step_fails F db email atts"
      unfolding StoreEmail_ok no_step_fails_def
      using find_Some_list_ex [of "\<lambda>a. addr_email a = ToLower (ToAddr email)" "addresses db"]
      by (auto simp add: list_all_iff)
    with ok None show ?thesis
      by (simp add: StoreEmail_ok)
  next
    case (Some err)
    with assms have e: "StoreEmail F db email atts = (db', Some err)"
      by simp
    have "\<not> no_step_fails F db email atts"
    proof
      assume "no_step_fails F db email atts"
      then have "\<exists>d. StoreEmail F db email atts = (d, None)"
        unfolding StoreEmail_ok no_step_fails_def
        using find_Some_list_ex [of "\<lambda>a. addr_email a = ToLower (ToAddr email)" "addresses db"]
        by (auto simp add: list_all_iff)
      with e show False by auto
    qed
    with Some StoreEmail_error [OF e] show ?thesis
      by simp
  qed
  have s1: "\<forall>e. F Begin = Some e \<longrightarrow>
        db' = db \<and> r = Some (Wrapf ''failed to begin transaction'' e)"
  proof (intro allI impI)
    fix e
    assume "F Begin = Some e"
    from this StoreEmail_begin_fails [where F=F and e=e and db=db and email=email and atts=atts]
      assms
    show "db' = db \<and> r = Some (Wrapf ''failed to begin transaction'' e)"
      by simp
  qed
  have s2: "\<forall>e. F Begin = None \<and> F InsertEmail = Some e \<longrightarrow>
        db' = db \<and> r = Some (Wrapf ''failed to insert email'' e)"
  proof (intro allI impI)
    fix e
    assume "F Begin = None \<and> F InsertEmail = Some e"
    then have "F Begin = None" "F InsertEmail = Some e"
      by simp_all
    from this StoreEmail_insert_fails [where F=F and e=e and db=db and email=email and atts=atts]
      assms
    show "db' = db \<and> r = Some (Wrapf ''failed to insert email'' e)"
      by simp
  qed
  have s3: "\<forall>e. F Begin = None \<and> F InsertEmail = None \<and> F SelectAddress = Some e \<and>
        e \<noteq> ErrNoRows \<longrightarrow>
        db' = db \<and>
        r = Some (Wrapf ''failed to get address'' (Wrapf ''failed to query address'' e))"
  proof (intro allI impI)
    fix e
    assume "F Begin = None \<and> F InsertEmail = None \<and> F SelectAddress = Some e \<and>
        e \<noteq> ErrNoRows"
    then have "F Begin = None" "F InsertEmail = None" "F SelectAddress = Some e"
      "e \<noteq> ErrNoRows"
      by simp_all
    from this StoreEmail_query_fails [where F=F and e=e and db=db and email=email and atts=atts]
      assms
    show "db' = db \<and>
        r = Some (Wrapf ''failed to get address'' (Wrapf ''failed to query address'' e))"
      by simp
  qed
  have s4: "F Begin = None \<and> F InsertEmail = None \<and>
      (F SelectAddress = Some ErrNoRows \<or>
       (F SelectAddress = None \<and>
        \<not> list_ex (\<lambda>a. addr_email a = ToLower (ToAddr email)) (addresses db))) \<longrightarrow>
        db' = db \<and>
        r = Some (Wrapf ''failed to get address''
              (Errorf_s ''address does not exist: %s'' (ToLower (ToAddr email))))"
  proof (intro impI)
    assume "F Begin = None \<and> F InsertEmail = None \<and>
      (F SelectAddress = Some ErrNoRows \<or>
       (F SelectAddress = None \<and>
        \<not> list_ex (\<lambda>a. addr_email a = ToLower (ToAddr email)) (addresses db)))"
    then have "F Begin = None" "F InsertEmail = None"
      "F SelectAddress = Some ErrNoRows \<or>
       (F SelectAddress = None \<and>
        \<not> list_ex (\<lambda>a. addr_email a = ToLower (ToAddr email)) (addresses db))"
      by simp_all
    from this StoreEmail_mailbox_missing [where F=F and db=db and email=email and atts=atts]
      assms
    show "db' = db \<and>
        r = Some (Wrapf ''failed to get address''
              (Errorf_s ''address does not exist: %s'' (ToLower (ToAddr email))))"
      by simp
  qed
  have s5: "\<forall>e. lookup_succeeds F db email \<and> F InsertRecipient = Some e \<longrightarrow>
        db' = db \<and> r = Some (Wrapf ''failed to link email to address'' e)"
  proof (intro allI impI)
    fix e
    assume "lookup_succeeds F db email \<and> F InsertRecipient = Some e"
    then have "lookup_succeeds F db email" "F InsertRecipient = Some e"
      by simp_all
    from this StoreEmail_link_fails [where F=F and e=e and db=db and email=email and atts=atts]
      assms
    show "db' = db \<and> r = Some (Wrapf ''failed to link email to address'' e)"
      by simp
  qed
  have s6: "\<forall>e j. lookup_succeeds F db email \<and> F InsertRecipient = None \<and> j < length atts \<and>
        (\<forall>i < j. F (InsertAttachment i) = None) \<and> F (InsertAttachment j) = Some e \<longrightarrow>
        db' = db \<and> r = Some (Wrapf ''failed to insert attachment'' e)"
  proof (intro allI impI)
    fix e j
    assume "lookup_succeeds F db email \<and> F InsertRecipient = None \<and> j < length atts \<and>
        (\<forall>i < j. F (InsertAttachment i) = None) \<and> F (InsertAttachment j) = Some e"
    then have "lookup_succeeds F db email" "F InsertRecipient = None" "j < length atts"
      "\<forall>i < j. F (InsertAttachment i) = None" "F (InsertAttachment j) = Some e"
      by simp_all
    from this
      StoreEmail_attachment_fails [where F=F and e=e and db=db and email=email and atts=atts and j=j]
      assms
    show "db' = db \<and> r = Some (Wrapf ''failed to insert attachment'' e)"
      by simp
  qed
  have s7: "\<forall>e. lookup_succeeds F db email \<and> F InsertRecipient = None \<and>
        (\<forall>i < length atts. F (InsertAttachment i) = None) \<and> F Commit = Some e \<longrightarrow>
        db' = db \<and> r = Some (Wrapf ''failed to commit transaction'' e)"
  proof (intro allI impI)
    fix e
    assume "lookup_succeeds F db email \<and> F InsertRecipient = None \<and>
        (\<forall>i < length atts. F (InsertAttachment i) = None) \<and> F Commit = Some e"
    then have "lookup_succeeds F db email" "F InsertRecipient = None"
      "\<forall>i < length atts. F (InsertAttachment i) = None" "F Commit = Some e"
      by simp_all
    from this StoreEmail_commit_fails [where F=F and e=e and db=db and email=email and atts=atts]
      assms
    show "db' = db \<and> r = Some (Wrapf ''failed to commit transaction'' e)"
      by simp
  qed
  from old s1 s2 s3 s4 s5 s6 s7 show ?thesis
    by (intro conjI) (elim conjE, assumption)+
qed

theorem C2_witness:
  "StoreEmail no_faults sample_db sample_email [sample_attachment] =
     (committed_store sample_db sample_email [sample_attachment] 7, None) \<and>
   no_step_fails no_faults sample_db sample_email [sample_attachment] \<and>
   StoreEmail insert_fails sample_db sample_email [sample_attachment] =
     (sample_db, Some (Wrapf ''failed to insert email'' (DriverError ''connection reset''))) \<and>
   \<not> no_step_fails insert_fails sample_db sample_email [sample_attachment] \<and>
   StoreEmail query_fails sample_db sample_email [] =
     (sample_db, Some (Wrapf ''failed to get address''
         (Wrapf ''failed to query address'' (DriverError ''connection reset'')))) \<and>
   StoreEmail no_faults sample_db (sample_email\<lparr>ToAddr := ''ghost@tempmail.example.com''\<rparr>) [] =
     (sample_db, Some (Wrapf ''failed to get address''
         (Errorf_s ''address does not exist: %s'' ''ghost@tempmail.example.com''))) \<and>
   StoreEmail attachment_fails sample_db sample_email [sample_attachment, sample_attachment] =
     (sample_db, Some (Wrapf ''failed to insert attachment'' (DriverError ''value too long''))) \<and>
   StoreEmail commit_fails sample_db sample_email [sample_attachment] =
     (sample_db, Some (Wrapf ''failed to commit transaction''
         (DriverError ''connection reset'')))"
proof -
  have ok: "StoreEmail no_faults sample_db sample_email [sample_attachment] =
     (committed_store sample_db sample_email [sample_attachment] 7, None)"
    by (simp add: StoreEmail_def no_faults_def insert_email_def getAddress_def
        select_address_id_def insert_recipient_def tx_Commit_def committed_store_def
        sample_db_def sample_email_def ToLower_alive Let_def)
  have bad: "StoreEmail insert_fails sample_db sample_email [sample_attachment] =
     (sample_db, Some (Wrapf ''failed to insert email'' (DriverError ''connection reset'')))"
    by (simp add: StoreEmail_def insert_fails_def no_faults_def insert_email_def Rollback_def)
  from C2_StoreEmail_atomic [OF ok] have "no_step_fails no_faults sample_db sample_email [sample_attachment]"
    by simp
  moreover from C2_StoreEmail_atomic [OF bad]
  have "\<not> no_step_fails insert_fails sample_db sample_email [sample_attachment]"
    by simp
  ultimately have first: "no_step_fails no_faults sample_db sample_email [sample_attachment] \<and>
      \<not> no_step_fails insert_fails sample_db sample_email [sample_attachment]"
    by (intro conjI)
  have w_commit: "StoreEmail commit_fails sample_db sample_email [sample_attachment] =
      (sample_db, Some (Wrapf ''failed to commit transaction'' (DriverError ''connection reset'')))"
  proof -
    obtain db' r where eq: "StoreEmail commit_fails sample_db sample_email [sample_attachment] = (db', r)"
      by (cases "StoreEmail commit_fails sample_db sample_email [sample_attachment]")
    have h: "lookup_succeeds commit_fails sample_db sample_email \<and>
        commit_fails InsertRecipient = None \<and>
        (\<forall>i < length [sample_attachment]. commit_fails (InsertAttachment i) = None) \<and>
        commit_fails Commit = Some (DriverError ''connection reset'')"
      by (simp add: commit_fails_def lookup_succeeds_def no_faults_def sample_db_def sample_email_def ToLower_alive)
    have "\<forall>e. lookup_succeeds commit_fails sample_db sample_email \<and>
        commit_fails InsertRecipient = None \<and>
        (\<forall>i < length [sample_attachment]. commit_fails (InsertAttachment i) = None) \<and>
        commit_fails Commit = Some e \<longrightarrow>
        db' = sample_db \<and> r = Some (Wrapf ''failed to commit transaction'' e)"
      using C2_StoreEmail_atomic [OF eq] by - (elim conjE, assumption)
    from this [rule_format, OF h] eq show ?thesis
      by (simp add: ToLower_ghost)
  qed
  have w_attachment: "StoreEmail attachment_fails sample_db sample_email [sample_attachment, sample_attachment] =
      (sample_db, Some (Wrapf ''failed to insert attachment'' (DriverError ''value too long'')))"
  proof -
    obtain db' r where eq: "StoreEmail attachment_fails sample_db sample_email [sample_attachment, sample_attachment] = (db', r)"
      by (cases "StoreEmail attachment_fails sample_db sample_email [sample_attachment, sample_attachment]")
    have h: "lookup_succeeds attachment_fails sample_db sample_email \<and>
        attachment_fails InsertRecipient = None \<and>
        1 < length [sample_attachment, sample_attachment] \<and>
        (\<forall>i < 1. attachment_fails (InsertAttachment i) = None) \<and>
        attachment_fails (InsertAttachment 1) = Some (DriverError ''value too long'')"
      by (simp add: attachment_fails_def lookup_succeeds_def no_faults_def sample_db_def sample_email_def ToLower_alive)
    have "\<forall>e j. lookup_succeeds attachment_fails sample_db sample_email \<and>
        attachment_fails InsertRecipient = None \<and>
        j < length [sample_attachment, sample_attachment] \<and>
        (\<forall>i < j. attachment_fails (InsertAttachment i) = None) \<and>
        attachment_fails (InsertAttachment j) = Some e \<longrightarrow>
        db' = sample_db \<and> r = Some (Wrapf ''failed to insert attachment'' e)"
      using C2_StoreEmail_atomic [OF eq] by - (elim conjE, assumption)
    from this [rule_format, OF h] eq show ?thesis
      by (simp add: ToLower_ghost)
  qed
  have w_query: "StoreEmail query_fails sample_db sample_email [] =
      (sample_db, Some (Wrapf ''failed to get address''
         (Wrapf ''failed to query address'' (DriverError ''connection reset''))))"
  proof -
    obtain db' r where eq: "StoreEmail query_fails sample_db sample_email [] = (db', r)"
      by (cases "StoreEmail query_fails sample_db sample_email []")
    have h: "query_fails Begin = None \<and> query_fails InsertEmail = None \<and>
        query_fails SelectAddress = Some (DriverError ''connection reset'') \<and>
        DriverError ''connection reset'' \<noteq> ErrNoRows"
      by (simp add: query_fails_def no_faults_def)
    have "\<forall>e. query_fails Begin = None \<and> query_fails InsertEmail = None \<and>
        query_fails SelectAddress = Some e \<and> e \<noteq> ErrNoRows \<longrightarrow>
        db' = sample_db \<and>
        r = Some (Wrapf ''failed to get address'' (Wrapf ''failed to query address'' e))"
      using C2_StoreEmail_atomic [OF eq] by - (elim conjE, assumption)
    from this [rule_format, OF h] eq show ?thesis
      by (simp add: ToLower_ghost)
  qed
  have w_missing: "StoreEmail no_faults sample_db (sample_email\<lparr>ToAddr := ''ghost@tempmail.example.com''\<rparr>) [] =
      (sample_db, Some (Wrapf ''failed to get address''
         (Errorf_s ''address does not exist: %s'' ''ghost@tempmail.example.com'')))"
  proof -
    obtain db' r where eq: "StoreEmail no_faults sample_db (sample_email\<lparr>ToAddr := ''ghost@tempmail.example.com''\<rparr>) [] = (db', r)"
      by (cases "StoreEmail no_faults sample_db (sample_email\<lparr>ToAddr := ''ghost@tempmail.example.com''\<rparr>) []")
    have h: "no_faults Begin = None \<and> no_faults InsertEmail = None \<and>
      (no_faults SelectAddress = Some ErrNoRows \<or>
       (no_faults SelectAddress = None \<and>
        \<not> list_ex (\<lambda>a. addr_email a = ToLower (ToAddr (sample_email\<lparr>ToAddr := ''ghost@tempmail.example.com''\<rparr>)))
             (addresses sample_db)))"
      by (simp add: no_faults_def sample_db_def ToLower_ghost)
    have "no_faults Begin = None \<and> no_faults InsertEmail = None \<and>
      (no_faults SelectAddress = Some ErrNoRows \<or>
       (no_faults SelectAddress = None \<and>
        \<not> list_ex (\<lambda>a. addr_email a = ToLower (ToAddr (sample_email\<lparr>ToAddr := ''ghost@tempmail.example.com''\<rparr>)))
             (addresses sample_db))) \<longrightarrow>
        db' = sample_db \<and>
        r = Some (Wrapf ''failed to get address''
              (Errorf_s ''address does not exist: %s'' (ToLower (ToAddr (sample_email\<lparr>ToAddr := ''ghost@tempmail.example.com''\<rparr>)))))"
      using C2_StoreEmail_atomic [OF eq] by - (elim conjE, assumption)
    from this [rule_format, OF h] eq show ?thesis
      by (simp add: ToLower_ghost)
  qed
  from ok bad first w_query w_missing w_attachment w_commit show ?thesis
    by (intro conjI) (elim conjE, assumption)+
qed

section \<open>Quota trimming\<close>

lemma filter_key_le_one:
  "distinct (map f xs) \<Longrightarrow> length (filter (\<lambda>x. f x = v) xs) \<le> 1"
proof (induction xs)
  case Nil
  then show ?case by simp
next
  case (Cons x xs)
  show ?case
  proof (cases "f x = v")
    case True
    with Cons.prems have "v \<notin> f ` set xs" by auto
    then have "filter (\<lambda>x. f x = v) xs = []"
      by (auto simp add: filter_empty_conv)
    with True show ?thesis by simp
  next
    case False
    with Cons show ?thesis by simp
  qed
qed

lemma copies_of_unique:
  assumes "distinct (map (\<lambda>er. (email_id er, address_id er)) ers)"
  shows "map (\<lambda>er. e) (filter (\<lambda>er. email_id er = i \<and> address_id er = a) ers) =
           (if list_ex (\<lambda>er. email_id er = i \<and> address_id er = a) ers then [e] else [])"
proof -
  let ?P = "\<lambda>er. email_id er = i \<and> address_id er = a"
  have eq: "filter ?P ers = filter (\<lambda>er. (email_id er, address_id er) = (i, a)) ers"
    by (rule filter_cong) auto
  have le: "length (filter ?P ers) \<le> 1"
    unfolding eq using assms by (rule filter_key_le_one)
  show ?thesis
  proof (cases "filter ?P ers")
    case Nil
    then have "\<not> list_ex ?P ers"
      by (simp add: filter_empty_conv list_ex_iff)
    with Nil show ?thesis by simp
  next
    case (Cons x xs)
    with le have "xs = []" by simp
    moreover have "list_ex ?P ers"
      using Cons by (metis filter_empty_conv list.distinct(1) list_ex_iff)
    ultimately show ?thesis using Cons by simp
  qed
qed

lemma concat_map_if: "concat (map (\<lambda>e. if P e then [e] else []) es) = filter P es"
  by (induction es) auto

lemma joined_for_linked:
  assumes "distinct (map (\<lambda>er. (email_id er, address_id er)) (email_recipients db))"
  shows "joined_for db a = linked_emails db a"
  unfolding joined_for_def linked_emails_def
  by (simp add: copies_of_unique [OF assms] concat_map_if)


lemma newest_first_set:
  assumes "schema_ok db"
  shows "set (newest_first db a) = set (linked_emails db a)"
  using assms
  by (simp add: newest_first_def order_by_received_at_desc_def joined_for_linked schema_ok_def)

lemma linked_subset: "set (linked_emails db a) \<subseteq> set (emails db)"
  by (auto simp add: linked_emails_def)

lemma distinct_ids_linked:
  assumes "schema_ok db"
  shows "distinct (map e_id (linked_emails db a))"
  using assms by (simp add: schema_ok_def linked_emails_def distinct_map_filter)

lemma distinct_ids_newest:
  assumes "schema_ok db"
  shows "distinct (map e_id (newest_first db a))"
proof -
  have d: "distinct (map e_id (linked_emails db a))"
    using assms by (rule distinct_ids_linked)
  then have "distinct (linked_emails db a)" "inj_on e_id (set (linked_emails db a))"
    by (simp_all add: distinct_map)
  then have "distinct (newest_first db a) \<and> inj_on e_id (set (newest_first db a))"
    using assms
    by (simp add: newest_first_def order_by_received_at_desc_def joined_for_linked schema_ok_def)
  then show ?thesis by (simp add: distinct_map)
qed

lemma take_drop_ids_disjoint:
  assumes "distinct (map f xs)"
  shows "f ` set (take n xs) \<inter> f ` set (drop n xs) = {}"
proof -
  have "distinct (map f (take n xs) @ map f (drop n xs))"
    using assms by (simp flip: map_append)
  then show ?thesis by auto
qed

lemma in_excess_iff:
  assumes "schema_ok db" "e \<in> set (emails db)"
  shows "e_id e \<in> set (excess_ids db a n) \<longleftrightarrow> e \<in> set (drop n (newest_first db a))"
proof
  assume "e_id e \<in> set (excess_ids db a n)"
  then obtain d where d: "d \<in> set (drop n (newest_first db a))" "e_id d = e_id e"
    by (auto simp add: excess_ids_def newest_first_def)
  then have "d \<in> set (newest_first db a)"
    by (meson in_set_dropD)
  then have "d \<in> set (emails db)"
    using newest_first_set [OF assms(1)] linked_subset by blast
  moreover have "inj_on e_id (set (emails db))"
    using assms(1) by (simp add: schema_ok_def distinct_map)
  ultimately have "d = e"
    using d(2) assms(2) by (auto dest: inj_onD)
  with d(1) show "e \<in> set (drop n (newest_first db a))" by simp
next
  assume "e \<in> set (drop n (newest_first db a))"
  then show "e_id e \<in> set (excess_ids db a n)"
    by (auto simp add: excess_ids_def newest_first_def)
qed

lemma retained_iff:
  assumes "schema_ok db" "e \<in> set (newest_first db a)"
  shows "e \<notin> set (drop n (newest_first db a)) \<longleftrightarrow> e \<in> set (take n (newest_first db a))"
proof -
  let ?xs = "newest_first db a"
  have dis: "e_id ` set (take n ?xs) \<inter> e_id ` set (drop n ?xs) = {}"
    using distinct_ids_newest [OF assms(1)] by (rule take_drop_ids_disjoint)
  have "set ?xs = set (take n ?xs) \<union> set (drop n ?xs)"
    by (metis append_take_drop_id set_append)
  with assms(2) dis show ?thesis by auto
qed

lemma emails_after:
  "emails (delete_excess db a n) =
     filter (\<lambda>e. e_id e \<notin> set (excess_ids db a n)) (emails db)"
  by (simp add: delete_excess_def delete_emails_def)

lemma recipients_after:
  "email_recipients (delete_excess db a n) =
     filter (\<lambda>er. email_id er \<notin> set (excess_ids db a n)) (email_recipients db)"
  by (simp add: delete_excess_def delete_emails_def)

lemma linked_after:
  "linked_emails (delete_excess db a n) a =
     filter (\<lambda>e. e_id e \<notin> set (excess_ids db a n)) (linked_emails db a)"
proof -
  let ?ids = "set (excess_ids db a n)"
  have "filter (\<lambda>e. list_ex (\<lambda>er. email_id er = e_id e \<and> address_id er = a)
                    (filter (\<lambda>er. email_id er \<notin> ?ids) (email_recipients db)))
          (filter (\<lambda>e. e_id e \<notin> ?ids) (emails db)) =
        filter (\<lambda>e. e_id e \<notin> ?ids)
          (filter (\<lambda>e. list_ex (\<lambda>er. email_id er = e_id e \<and> address_id er = a)
                    (email_recipients db)) (emails db))"
    unfolding filter_filter by (rule filter_cong) (auto simp add: list_ex_iff)
  then show ?thesis
    by (simp add: linked_emails_def emails_after recipients_after)
qed

lemma retained_set:
  assumes "schema_ok db"
  shows "set (linked_emails (delete_excess db a n) a) = set (take n (newest_first db a))"
proof -
  have "\<And>e. e \<in> set (linked_emails db a) \<Longrightarrow>
          e_id e \<notin> set (excess_ids db a n) \<longleftrightarrow> e \<in> set (take n (newest_first db a))"
    using in_excess_iff [OF assms] retained_iff [OF assms] linked_subset
      newest_first_set [OF assms] by blast
  moreover have "set (take n (newest_first db a)) \<subseteq> set (linked_emails db a)"
    using newest_first_set [OF assms] by (metis set_take_subset)
  ultimately show ?thesis
    unfolding linked_after by auto
qed

lemma deleted_set:
  assumes "schema_ok db"
  shows "set (emails db) - set (emails (delete_excess db a n)) =
           set (drop n (newest_first db a))"
proof -
  have "set (drop n (newest_first db a)) \<subseteq> set (emails db)"
    using newest_first_set [OF assms] linked_subset by (metis dual_order.trans set_drop_subset)
  then show ?thesis
    unfolding emails_after using in_excess_iff [OF assms] by auto
qed

lemma retained_count:
  assumes "schema_ok db"
  shows "length (linked_emails (delete_excess db a n) a) =
           min n (length (linked_emails db a))"
proof -
  have len: "length (newest_first db a) = length (linked_emails db a)"
    using assms
    by (simp add: newest_first_def order_by_received_at_desc_def joined_for_linked schema_ok_def)
  have "distinct (linked_emails (delete_excess db a n) a)"
    unfolding linked_after using distinct_ids_linked [OF assms] by (simp add: distinct_map)
  then have "length (linked_emails (delete_excess db a n) a) =
               card (set (take n (newest_first db a)))"
    using retained_set [OF assms] by (metis distinct_card)
  also have "\<dots> = length (take n (newest_first db a))"
    using distinct_ids_newest [OF assms] by (simp add: distinct_card distinct_map)
  finally show ?thesis using len by (simp add: min.commute)
qed

lemma newer_than_deleted:
  "\<forall>x \<in> set (take n (newest_first db a)). \<forall>y \<in> set (drop n (newest_first db a)).
      received_at y \<le> received_at x"
proof -
  let ?xs = "newest_first db a"
  let ?k = "\<lambda>e. - received_at e"
  have "sorted (map ?k ?xs)"
    by (simp add: newest_first_def order_by_received_at_desc_def)
  then have "sorted (map ?k (take n ?xs) @ map ?k (drop n ?xs))"
    by (simp flip: map_append)
  then have "\<forall>x \<in> set (map ?k (take n ?xs)). \<forall>y \<in> set (map ?k (drop n ?xs)). x \<le> y"
    by (simp add: sorted_append)
  then show ?thesis by auto
qed


lemma distinct_email_ids_of_links:
  "distinct (map (\<lambda>er. (email_id er, address_id er)) ers) \<Longrightarrow>
     distinct (map email_id (filter (\<lambda>er. address_id er = a) ers))"
proof (induction ers)
  case Nil
  then show ?case by simp
next
  case (Cons er ers)
  then show ?case by (auto simp add: image_iff)
qed

lemma links_after:
  "links_of (delete_excess db a n) a =
     filter (\<lambda>er. email_id er \<notin> set (excess_ids db a n)) (links_of db a)"
  by (simp add: links_of_def recipients_after conj_commute)

lemma links_count:
  assumes "schema_ok db"
  shows "length (links_of (delete_excess db a n) a) \<le> n"
proof -
  let ?ls = "links_of (delete_excess db a n) a"
  let ?top = "take n (newest_first db a)"
  have "distinct (map email_id (links_of db a))"
    using assms unfolding links_of_def schema_ok_def
    by (simp add: distinct_email_ids_of_links)
  then have d: "distinct (map email_id ?ls)"
    unfolding links_after by (simp add: distinct_map_filter)
  have sub: "set (map email_id ?ls) \<subseteq> e_id ` set ?top"
  proof
    fix i
    assume "i \<in> set (map email_id ?ls)"
    then have "i \<in> email_id `
        set (filter (\<lambda>er. email_id er \<notin> set (excess_ids db a n)) (links_of db a))"
      by (simp add: links_after)
    then obtain er where er: "er \<in> set (email_recipients db)" "address_id er = a"
      "email_id er \<notin> set (excess_ids db a n)" "i = email_id er"
      by (auto simp add: links_of_def)
    from assms er(1) obtain e where e: "e \<in> set (emails db)" "e_id e = email_id er"
      unfolding schema_ok_def by (auto simp add: list_all_iff list_ex_iff)
    with er(1,2) have "e \<in> set (linked_emails db a)"
      by (auto simp add: linked_emails_def list_ex_iff)
    then have n: "e \<in> set (newest_first db a)"
      using newest_first_set [OF assms] by simp
    from er(3) e have "e \<notin> set (drop n (newest_first db a))"
      using in_excess_iff [OF assms e(1)] by simp
    with n have "e \<in> set ?top"
      using retained_iff [OF assms n] by simp
    then have "e_id e \<in> e_id ` set ?top" by (rule imageI)
    with e(2) er(4) show "i \<in> e_id ` set ?top" by simp
  qed
  have "length ?ls = card (set (map email_id ?ls))"
    using d by (metis distinct_card length_map)
  also have "\<dots> \<le> card (e_id ` set ?top)"
    using sub by (simp add: card_mono)
  also have "\<dots> \<le> card (set ?top)"
    by (simp add: card_image_le)
  also have "\<dots> \<le> length ?top"
    by (rule card_length)
  also have "\<dots> \<le> n"
    by simp
  finally show ?thesis .
qed

text \<open>
  What the statement of \<open>EnforceEmailLimit\<close> does for a cap \<open>k\<close> (its parameter
  \<open>$2\<close>; the schema's \<open>enforce_max_emails_per_address\<close> runs the same query), on tables
  that satisfy the schema's constraints: afterwards at most \<open>k\<close> links and \<open>min k n\<close> of
  the \<open>n\<close> messages of the mailbox remain, the retained messages are the first \<open>k\<close> in
  the order newest first, the deleted ones are the rest of that order, and no deleted
  message is newer than a retained one.
\<close>

lemma delete_excess_keeps_newest:
  assumes "schema_ok db"
  shows "length (links_of (delete_excess db a k) a) \<le> k \<and>
     length (linked_emails (delete_excess db a k) a) = min k (length (linked_emails db a)) \<and>
     set (newest_first db a) = set (linked_emails db a) \<and>
     set (linked_emails (delete_excess db a k) a) = set (take k (newest_first db a)) \<and>
     set (emails db) - set (emails (delete_excess db a k)) = set (drop k (newest_first db a)) \<and>
     (\<forall>x \<in> set (take k (newest_first db a)). \<forall>y \<in> set (drop k (newest_first db a)).
         received_at y \<le> received_at x) \<and>
     (F DeleteExcess = None \<longrightarrow>
        EnforceEmailLimit F db a = (delete_excess db a 100, None))"
proof -
  have "F DeleteExcess = None \<longrightarrow>
        EnforceEmailLimit F db a = (delete_excess db a 100, None)"
    by (simp add: EnforceEmailLimit_def maxEmails_def)
  with links_count [OF assms] retained_count [OF assms] newest_first_set [OF assms]
    retained_set [OF assms] deleted_set [OF assms] newer_than_deleted
  show ?thesis by (intro conjI)
qed

lemma quota_ok: "schema_ok quota_db"
  by (simp add: schema_ok_def quota_db_def email_row_of_def)

lemma quota_after:
  "map e_id (emails (delete_excess quota_db 7 3)) = [5, 4, 3] \<and>
   map email_id (email_recipients (delete_excess quota_db 7 3)) = [5, 4, 3] \<and>
   attachments (delete_excess quota_db 7 3) = []"
  by (simp add: delete_excess_def delete_emails_def excess_ids_def
      order_by_received_at_desc_def joined_for_def quota_db_def email_row_of_def
      attachment_row_of_def)

lemma delete_excess_quota_db:
  "schema_ok quota_db \<and>
   map e_id (emails (delete_excess quota_db 7 3)) = [5, 4, 3] \<and>
   map email_id (email_recipients (delete_excess quota_db 7 3)) = [5, 4, 3] \<and>
   attachments (delete_excess quota_db 7 3) = [] \<and>
   length (links_of (delete_excess quota_db 7 3) 7) \<le> 3 \<and>
   EnforceEmailLimit no_faults quota_db 7 = (delete_excess quota_db 7 100, None)"
  using delete_excess_keeps_newest [OF quota_ok, of 7 3 no_faults] quota_ok quota_after
  by (simp add: no_faults_def)

lemma delete_excess_none:
  "length (joined_for db a) \<le> n \<Longrightarrow> delete_excess db a n = db"
  by (simp add: delete_excess_def delete_emails_def excess_ids_def
      order_by_received_at_desc_def)

lemma joined_quota: "length (joined_for quota_db 7) = 5"
  by (simp add: joined_for_def quota_db_def email_row_of_def)

text \<open>
  C6. The claim: after the limit is enforced for a mailbox with cap \<open>k\<close>, at most \<open>k\<close>
  messages remain linked to it, the newest ones. \<open>EnforceEmailLimit\<close> takes no cap and
  reads none from the configuration: it always passes 100 to its statement. With
  \<open>max_emails_per_address = 3\<close> and five messages in the mailbox (scenario S6) it
  deletes nothing and all five stay linked, where the statement run with cap 3 keeps
  the three newest.
\<close>

theorem C6_EnforceEmailLimit_ignores_cap:
  "MaxEmailsPerAddress quota_cfg = 3 \<and>
   EnforceEmailLimit no_faults quota_db 7 = (quota_db, None) \<and>
   length (links_of quota_db 7) = 5 \<and>
   length (linked_emails quota_db 7) = 5 \<and>
   map e_id (emails (delete_excess quota_db 7 3)) = [5, 4, 3]"
  using delete_excess_none [of quota_db 7 100] joined_quota quota_after
  by (simp add: EnforceEmailLimit_def maxEmails_def no_faults_def quota_cfg_def)
    (simp add: links_of_def linked_emails_def quota_db_def email_row_of_def)

section \<open>DATA\<close>

lemma max_size_sample: "sint (GetMaxMessageSize sample_cfg) = 1048576"
  by (simp add: GetMaxMessageSize_def sample_cfg_def)

text \<open>
  C7. The claim: \<open>Data\<close> fails for size exactly when the message exceeds the maximum,
  and a message of at most that many bytes goes on to parsing. With
  \<open>max_message_size_mb = 1\<close> the maximum is 1048576 bytes; a message of exactly
  1048576 bytes does not exceed it, and \<open>Data\<close> rejects it as too large, before any
  parsing and for every library, store and session of that configuration.
\<close>

theorem C7_Data_rejects_message_of_max_size:
  "sint (GetMaxMessageSize sample_cfg) = 1048576 \<and>
   length (replicate 1048576 CHR ''a'') = 1048576 \<and>
   Data L F (Backend_NewSession sample_cfg ra hn) db
       (Reader (replicate 1048576 CHR ''a'') None) now =
     Some (db, Some (Errorf_d ''message too large (max %d MB)'' 1))"
  by (simp add: max_size_sample Data_def read_limited_def Backend_NewSession_def
      NewSession_def Let_def) (simp add: sample_cfg_def)

lemma store_loop_error:
  "store_loop F i db email atts rcpts = (db', Some err) \<Longrightarrow>
     err = Errorf ''error storing message''"
  by (induction rcpts arbitrary: i db email)
    (auto simp add: Let_def split: prod.splits option.splits)

text \<open>In general the size check of \<open>Data\<close> fires from the maximum on, not above it.\<close>

lemma Data_size_check:
  assumes "0 < sint (GetMaxMessageSize (cfg s))"
  shows "Data L F s db (Reader bs None) now =
           Some (db, Some (Errorf_d ''message too large (max %d MB)'' (MaxMsgSizeMB (cfg s))))
         \<longleftrightarrow> sint (GetMaxMessageSize (cfg s)) \<le> int (length bs)"
  using assms
  by (auto simp add: Data_def read_limited_def Let_def
      split: option.splits prod.splits dest: store_loop_error)

text \<open>
  Every row that the loop of \<open>Data\<close> commits carries the fields of the record it was
  given; only \<open>to_address\<close> differs between them.
\<close>

lemma StoreEmail_rows:
  assumes "StoreEmail F db email atts = (db', res)"
  shows "\<exists>rows. emails db' = emails db @ rows \<and>
           (\<forall>row \<in> set rows. \<exists>i. row = email_row_of i email)"
proof (cases res)
  case None
  with assms show ?thesis
    by (auto simp add: StoreEmail_ok committed_store_def)
next
  case (Some err)
  with assms StoreEmail_error [of F db email atts db' err] show ?thesis
    by simp
qed

lemma store_loop_rows:
  "store_loop F i db email atts rcpts = (db', res) \<Longrightarrow>
     \<exists>rows. emails db' = emails db @ rows \<and>
       (\<forall>row \<in> set rows. \<exists>j rcpt. row = email_row_of j (email\<lparr>ToAddr := rcpt\<rparr>))"
proof (induction rcpts arbitrary: i db email)
  case Nil
  then show ?case by simp
next
  case (Cons rcpt rest)
  obtain db1 r1 where s1: "StoreEmail (F i) db (email\<lparr>ToAddr := rcpt\<rparr>) atts = (db1, r1)"
    by (cases "StoreEmail (F i) db (email\<lparr>ToAddr := rcpt\<rparr>) atts") auto
  from StoreEmail_rows [OF s1] obtain rows1 where r1: "emails db1 = emails db @ rows1"
    "\<forall>row \<in> set rows1. \<exists>j. row = email_row_of j (email\<lparr>ToAddr := rcpt\<rparr>)"
    by blast
  show ?case
  proof (cases r1)
    case (Some err)
    with Cons.prems s1 have "db' = db1" by (simp add: Let_def)
    with r1 show ?thesis by blast
  next
    case None
    with Cons.prems s1
    have "store_loop F (Suc i) db1 (email\<lparr>ToAddr := rcpt\<rparr>) atts rest = (db', res)"
      by (simp add: Let_def)
    from Cons.IH [OF this] obtain rows2 where r2: "emails db' = emails db1 @ rows2"
      "\<forall>row \<in> set rows2. \<exists>j rc. row = email_row_of j (email\<lparr>ToAddr := rcpt, ToAddr := rc\<rparr>)"
      by blast
    have "emails db' = emails db @ (rows1 @ rows2)"
      using r1(1) r2(1) by simp
    moreover have "\<forall>row \<in> set (rows1 @ rows2). \<exists>j rc. row = email_row_of j (email\<lparr>ToAddr := rc\<rparr>)"
      using r1(2) r2(2) by (auto, blast)
    ultimately show ?thesis by blast
  qed
qed


lemma Data_rows:
  assumes "Data L F s db r now = Some (db', res)"
    and "read_limited r (GetMaxMessageSize (cfg s)) = Inr raw"
    and "enmime_ReadEnvelope L raw = Some e"
  shows "\<exists>rows. emails db' = emails db @ rows \<and>
     (\<forall>row \<in> set rows.
        body_plain row = BodyPlain (extractEmailData L s e raw (int (length raw)) now) \<and>
        (validator s = None \<longrightarrow>
           dkim_valid row = None \<and> spf_result row = [] \<and> dmarc_result row = []) \<and>
        (\<forall>vcfg. validator s = Some vcfg \<longrightarrow>
           (\<exists>vr. ValidateEmail L vcfg raw (from_addr s) (getClientIP L s) (hostname s) = Some vr \<and>
              dkim_valid row = v_DKIMValid vr \<and> spf_result row = v_SPFResult vr \<and>
              dmarc_result row = v_DMARCResult vr)))"
proof (cases "sint (GetMaxMessageSize (cfg s)) \<le> int (length raw)")
  case True
  with assms have "db' = db"
    by (simp add: Data_def Let_def)
  then show ?thesis by simp
next
  case False
  let ?d = "extractEmailData L s e raw (int (length raw)) now"
  show ?thesis
  proof (cases "validator s")
    case None
    let ?d2 = "?d\<lparr>HasAttachments := (length (extractAttachments e) > 0)\<rparr>"
    from assms False None
    have "store_loop F 0 db ?d2 (extractAttachments e) (to_addrs s) = (db', res)"
      by (simp add: Data_def Let_def)
    from store_loop_rows [OF this] obtain rows where rows: "emails db' = emails db @ rows"
      "\<forall>row \<in> set rows. \<exists>j rcpt. row = email_row_of j (?d2\<lparr>ToAddr := rcpt\<rparr>)"
      by blast
    have "\<forall>row \<in> set rows. body_plain row = BodyPlain ?d \<and>
            dkim_valid row = None \<and> spf_result row = [] \<and> dmarc_result row = []"
      using rows(2) by (auto simp add: email_row_of_def extractEmailData_def Let_def)
    with rows(1) None show ?thesis by auto
  next
    case (Some vcfg)
    with assms False obtain vr where
      vr: "ValidateEmail L vcfg raw (from_addr s) (getClientIP L s) (hostname s) = Some vr"
      by (auto simp add: Data_def Let_def split: option.splits)
    let ?d2 = "?d\<lparr>DKIMValid := v_DKIMValid vr, SPFResult := v_SPFResult vr,
                   DMARCResult := v_DMARCResult vr,
                   HasAttachments := (length (extractAttachments e) > 0)\<rparr>"
    from assms False Some vr
    have "store_loop F 0 db ?d2 (extractAttachments e) (to_addrs s) = (db', res)"
      by (simp add: Data_def Let_def)
    from store_loop_rows [OF this] obtain rows where rows: "emails db' = emails db @ rows"
      "\<forall>row \<in> set rows. \<exists>j rcpt. row = email_row_of j (?d2\<lparr>ToAddr := rcpt\<rparr>)"
      by blast
    have "\<forall>row \<in> set rows. body_plain row = BodyPlain ?d \<and>
            dkim_valid row = v_DKIMValid vr \<and> spf_result row = v_SPFResult vr \<and>
            dmarc_result row = v_DMARCResult vr"
      using rows(2) by (auto simp add: email_row_of_def)
    with rows(1) Some vr show ?thesis by auto
  qed
qed


lemma length_sample_message: "length sample_message = 20"
  by (simp add: sample_message_def)

lemma sample_session_fields:
  "cfg sample_session = sample_cfg" "validator sample_session = None"
  "from_addr sample_session = ''sender@example.com''"
  "to_addrs sample_session = [''alive@tempmail.example.com'']"
  by (simp_all add: sample_session_def Backend_NewSession_def NewSession_def
      NewSMTPServer_validator_def sample_cfg_def)

lemma StoreEmail_sample:
  "ToAddr email = ''alive@tempmail.example.com'' \<Longrightarrow>
     StoreEmail no_faults sample_db email [] = (committed_store sample_db email [] 7, None)"
  by (simp add: StoreEmail_def no_faults_def insert_email_def getAddress_def
      select_address_id_def insert_recipient_def tx_Commit_def committed_store_def
      sample_db_def ToLower_alive Let_def)

lemma read_limited_small:
  "length raw < 1048576 \<Longrightarrow>
     read_limited (Reader raw None) (GetMaxMessageSize sample_cfg) = Inr raw"
  by (simp add: read_limited_def max_size_sample)

lemma Data_sample:
  assumes "enmime_ReadEnvelope sample_lib raw = Some e" "length raw < 1048576"
    "extractAttachments e = []"
  shows "Data sample_lib never_fails sample_session sample_db (Reader raw None) now =
     Some (committed_store sample_db
             ((extractEmailData sample_lib sample_session e raw (int (length raw)) now)
                \<lparr>HasAttachments := (length (extractAttachments e) > 0),
                  ToAddr := ''alive@tempmail.example.com''\<rparr>)
             [] 7, None)"
  using assms
  by (simp add: Data_def sample_session_fields read_limited_small max_size_sample Let_def
      never_fails_def StoreEmail_sample)

lemma ReadEnvelope_sample:
  "enmime_ReadEnvelope sample_lib sample_message = Some sample_envelope"
  "enmime_ReadEnvelope sample_lib blank_message = Some blank_envelope"
  "enmime_ReadEnvelope sample_lib html_message = Some html_envelope"
  by (simp_all add: sample_lib_def sample_message_def blank_message_def html_message_def)

lemma no_attachments_sample:
  "extractAttachments sample_envelope = []" "extractAttachments blank_envelope = []"
  "extractAttachments html_envelope = []"
  by (simp_all add: extractAttachments_def sample_envelope_def blank_envelope_def
      html_envelope_def)


section \<open>Value sets of the authentication results\<close>

lemma spf_mechanism_values: "spf_mechanism L ip m = Some r \<Longrightarrow> r \<in> set spf_values"
  by (auto simp add: spf_mechanism_def spf_values_def Let_def split: if_splits)

lemma spf_loop_values: "spf_loop L ip ms \<in> set spf_values"
proof (induction ms)
  case Nil
  show ?case by (simp add: spf_values_def)
next
  case (Cons m ms)
  then show ?case
    by (cases "spf_mechanism L ip m") (simp_all add: spf_mechanism_values)
qed

lemma validateSPF_values:
  assumes "validateSPF L cip helo f = Some r"
  shows "r \<in> set spf_values"
proof -
  have n: "''none'' \<in> set spf_values"
    by (simp add: spf_values_def)
  from assms show ?thesis
    using n spf_loop_values [of L]
    by (auto simp add: validateSPF_def evaluateBasicSPF_def Let_def
        split: if_splits option.splits sum.splits)
qed

lemma validateDMARC_values: "validateDMARC L d spf dkim \<in> set dmarc_values"
  by (simp add: validateDMARC_def dmarc_values_def Let_def split: sum.splits)

text \<open>The slice in \<open>evaluateBasicSPF\<close> is always in range: \<open>validateSPF\<close> does not panic.\<close>

lemma validateSPF_returns: "\<exists>r. validateSPF L cip helo f = Some r"
proof (cases "extractDomain f = [] \<or> net_ParseIP L cip = None")
  case True
  then show ?thesis
    by (auto simp add: validateSPF_def Let_def)
next
  case False
  then obtain ip where ip: "net_ParseIP L cip = Some ip" and d: "extractDomain f \<noteq> []"
    by auto
  show ?thesis
  proof (cases "net_LookupTXT L (extractDomain f)")
    case (Inl e)
    with ip d show ?thesis
      by (simp add: validateSPF_def lookupSPFRecord_def Let_def)
  next
    case (Inr txts)
    show ?thesis
    proof (cases "find (\<lambda>r. HasPrefix r ''v=spf1'') txts")
      case None
      with Inr ip d show ?thesis
        by (simp add: validateSPF_def lookupSPFRecord_def Let_def)
    next
      case (Some rec)
      from validateSPF_record [OF d ip Inr Some] show ?thesis by blast
    qed
  qed
qed

lemma ValidateEmail_returns: "\<exists>vr. ValidateEmail L vcfg raw f cip helo = Some vr"
  using validateSPF_returns [of L cip helo f]
  by (auto simp add: ValidateEmail_def Let_def)

lemma ValidateEmail_values:
  assumes "ValidateEmail L vcfg raw f cip helo = Some vr"
  shows "v_SPFResult vr \<in> set spf_values \<and> v_DMARCResult vr \<in> set dmarc_values"
proof -
  have n: "''none'' \<in> set spf_values" "''none'' \<in> set dmarc_values"
    by (simp_all add: spf_values_def dmarc_values_def)
  from assms show ?thesis
    using n validateDMARC_values [of L] validateSPF_values [of L cip helo f]
    by (auto simp add: ValidateEmail_def Let_def split: if_splits option.splits)
qed

lemma ValidateEmail_not_None: "ValidateEmail L vcfg raw f cip helo \<noteq> None"
  using ValidateEmail_returns [of L vcfg raw f cip helo] by auto

lemma Data_returns: "\<exists>out. Data L F s db r now = Some out"
  by (auto simp add: Data_def Let_def ValidateEmail_not_None split: sum.splits option.splits)

text \<open>With a validator, what \<open>Data\<close> commits lies in the enumerated sets.\<close>

lemma validated_rows_in_range:
  assumes "Data L F s db r now = Some (db', res)"
    and "read_limited r (GetMaxMessageSize (cfg s)) = Inr raw"
    and "enmime_ReadEnvelope L raw = Some e"
    and "validator s = Some vcfg"
  shows "\<exists>rows. emails db' = emails db @ rows \<and>
     (\<forall>row \<in> set rows. spf_result row \<in> set spf_values \<and>
        dmarc_result row \<in> set dmarc_values)"
proof -
  from Data_rows [OF assms(1-3)] obtain rows where rows: "emails db' = emails db @ rows"
    "\<forall>row \<in> set rows. \<exists>vr.
        ValidateEmail L vcfg raw (from_addr s) (getClientIP L s) (hostname s) = Some vr \<and>
        dkim_valid row = v_DKIMValid vr \<and> spf_result row = v_SPFResult vr \<and>
        dmarc_result row = v_DMARCResult vr"
    using assms(4) by auto
  have "\<forall>row \<in> set rows. spf_result row \<in> set spf_values \<and>
        dmarc_result row \<in> set dmarc_values"
  proof
    fix row
    assume "row \<in> set rows"
    with rows(2) obtain vr where
      "ValidateEmail L vcfg raw (from_addr s) (getClientIP L s) (hostname s) = Some vr"
      "spf_result row = v_SPFResult vr" "dmarc_result row = v_DMARCResult vr"
      by blast
    with ValidateEmail_values [of L vcfg raw "from_addr s" "getClientIP L s" "hostname s" vr]
    show "spf_result row \<in> set spf_values \<and> dmarc_result row \<in> set dmarc_values"
      by simp
  qed
  with rows(1) show ?thesis by blast
qed
text \<open>
  C5. The claim: every committed message has \<open>spf_result\<close> and \<open>dmarc_result\<close> in the
  enumerated sets, also when the checks are switched off. With all three checks off,
  \<open>NewSMTPServer\<close> creates no validator, \<open>Data\<close> leaves the three fields of
  \<open>EmailData\<close> at their zero values, and the committed row has the empty string as
  \<open>spf_result\<close> and as \<open>dmarc_result\<close>, which neither set contains.
\<close>

theorem C5_unvalidated_message_stores_empty_results:
  "NewSMTPServer_validator sample_cfg = None \<and>
   map_option (map (\<lambda>row. (dkim_valid row, spf_result row, dmarc_result row)) \<circ> emails \<circ> fst)
     (Data sample_lib never_fails sample_session sample_db (Reader sample_message None) now) =
     Some [(None, [], [])] \<and>
   map_option snd
     (Data sample_lib never_fails sample_session sample_db (Reader sample_message None) now) =
     Some None \<and>
   [] \<notin> set spf_values \<and> [] \<notin> set dmarc_values"
proof -
  have "length sample_message < 1048576"
    by (simp add: sample_message_def)
  from Data_sample [OF ReadEnvelope_sample(1) this no_attachments_sample(1)]
  show ?thesis
    by (simp add: committed_store_def email_row_of_def extractEmailData_def Let_def
      sample_db_def spf_values_def dmarc_values_def NewSMTPServer_validator_def sample_cfg_def)
qed

text \<open>
  C8, as stated, fails: for a message from which enmime extracts neither a plain nor an
  HTML body, the committed row has the empty string as \<open>body_plain\<close>.
\<close>

theorem C8_counterexample:
  "Text blank_envelope = [] \<and> HTML blank_envelope = [] \<and>
   enmime_ReadEnvelope sample_lib blank_message = Some blank_envelope \<and>
   map_option (map body_plain \<circ> emails \<circ> fst)
     (Data sample_lib never_fails sample_session sample_db (Reader blank_message None)
        63900000000) = Some [[]]"
proof -
  have "length blank_message < 1048576"
    by (simp add: blank_message_def)
  from Data_sample [OF ReadEnvelope_sample(2) this no_attachments_sample(2)]
  show ?thesis
    by (simp add: committed_store_def email_row_of_def extractEmailData_def Let_def
      sample_db_def blank_envelope_def sample_envelope_def ReadEnvelope_sample)
qed

lemma BodyPlain_extract:
  "BodyPlain (extractEmailData L s e raw sz now) =
     (if Text e = [] \<and> HTML e \<noteq> [] then placeholder else Text e)"
  by (simp add: extractEmailData_def Let_def placeholder_def)

text \<open>
  C8, amended. Every row that \<open>Data\<close> commits for a message has as \<open>body_plain\<close> the
  placeholder "[HTML email - plain text not provided]" when the extracted plain body is
  empty and the extracted HTML body is not, and the extracted plain body otherwise; in
  particular it is empty when both bodies are empty.
\<close>

theorem C8_placeholder_for_html_only:
  assumes "Data L F s db r now = Some (db', res)"
    and "read_limited r (GetMaxMessageSize (cfg s)) = Inr raw"
    and "enmime_ReadEnvelope L raw = Some e"
  shows "\<exists>rows. emails db' = emails db @ rows \<and>
     (\<forall>row \<in> set rows.
        body_plain row = (if Text e = [] \<and> HTML e \<noteq> [] then placeholder else Text e))"
  using Data_rows [OF assms] by (auto simp add: BodyPlain_extract)

theorem C8_witness:
  "Text html_envelope = [] \<and> HTML html_envelope \<noteq> [] \<and>
   read_limited (Reader html_message None) (GetMaxMessageSize (cfg sample_session)) =
     Inr html_message \<and>
   enmime_ReadEnvelope sample_lib html_message = Some html_envelope \<and>
   map_option (map body_plain \<circ> emails \<circ> fst)
     (Data sample_lib never_fails sample_session sample_db (Reader html_message None)
        63900000000) = Some [placeholder]"
proof -
  have len: "length html_message < 1048576"
    by (simp add: html_message_def)
  have rd: "read_limited (Reader html_message None) (GetMaxMessageSize (cfg sample_session)) =
     Inr html_message"
    using len by (simp add: sample_session_fields read_limited_small)
  obtain db' where d: "Data sample_lib never_fails sample_session sample_db
      (Reader html_message None) 63900000000 = Some (db', None)"
    and n: "length (emails db') = 1"
    using Data_sample [OF ReadEnvelope_sample(3) len no_attachments_sample(3)]
    by (simp add: committed_store_def sample_db_def)
  from C8_placeholder_for_html_only [OF d rd ReadEnvelope_sample(3)] n
  have "map body_plain (emails db') = [placeholder]"
    by (cases "emails db'") (auto simp add: sample_db_def html_envelope_def)
  with d rd show ?thesis
    by (simp add: ReadEnvelope_sample html_envelope_def)
qed


section \<open>The sent date\<close>

lemma dateSent_of_fallback:
  "GetHeader e ''Date'' = [] \<or> mail_ParseDate L (GetHeader e ''Date'') = None \<Longrightarrow>
     dateSent_of L e now = now"
  by (auto simp add: dateSent_of_def Let_def)

lemma extractEmailData_ignores_ParseDate:
  "extractEmailData (L\<lparr>mail_ParseDate := p\<rparr>) s e raw sz now =
     extractEmailData L s e raw sz now"
  by (simp add: extractEmailData_def Let_def)

text \<open>
  C9. The claim: the extractor's output record includes the sent date taken from the
  \<open>Date:\<close> header, the receive instant standing in when the header is absent or
  unparseable. \<open>extractEmailData\<close> computes exactly that into its local variable
  \<open>dateSent\<close> and then drops it: for a message dated 2024-01-01 12:00:00 UTC (instant
  63839707200) and received at instant 63900000000, the variable holds the header's date,
  and the record returned has no field for it; its only instant is \<open>ReceivedAt\<close>, the
  receive instant, whatever \<open>mail.ParseDate\<close> returns.
\<close>

theorem C9_sent_date_dropped:
  "GetHeader dated_envelope ''Date'' = ''Mon, 01 Jan 2024 12:00:00 +0000'' \<and>
   mail_ParseDate sample_lib ''Mon, 01 Jan 2024 12:00:00 +0000'' = Some 63839707200 \<and>
   dateSent_of sample_lib dated_envelope 63900000000 = 63839707200 \<and>
   extractEmailData sample_lib sample_session dated_envelope raw sz 63900000000 =
     \<lparr> MessageID = [], Subject = ''hi'', FromAddr = ''sender@example.com'', ToAddr = [],
       RawHeaders = ''Date: Mon, 01 Jan 2024 12:00:00 +0000'' @ [CHR 0x0A] @
                    ''Subject: hi'' @ [CHR 0x0A],
       BodyPlain = ''hello'', BodyHTML = [], RawMessage = raw, SizeBytes = sz,
       DKIMValid = None, SPFResult = [], DMARCResult = [], HasAttachments = False,
       ReceivedAt = 63900000000 \<rparr> \<and>
   extractEmailData (sample_lib\<lparr>mail_ParseDate := p\<rparr>) sample_session dated_envelope raw sz
       63900000000 =
     extractEmailData sample_lib sample_session dated_envelope raw sz 63900000000"
  by (simp add: extractEmailData_ignores_ParseDate)
    (simp add: dated_envelope_def sample_lib_def dateSent_of_def extractEmailData_def
      header_lines_def sample_session_fields Let_def)

section \<open>A recipient without a mailbox\<close>

lemma StoreEmail_ghost:
  "ToAddr email = ''ghost@tempmail.example.com'' \<Longrightarrow>
     StoreEmail no_faults sample_db email atts =
       (sample_db, Some (Wrapf ''failed to get address''
          (Errorf_s ''address does not exist: %s'' ''ghost@tempmail.example.com'')))"
  by (simp add: StoreEmail_def no_faults_def insert_email_def getAddress_def
      select_address_id_def Rollback_def sample_db_def ToLower_ghost Let_def)

text \<open>
  C1. The claim: a recipient is accepted if and only if the address parses as
  local@domain, the case-folded domain is configured and the lowercased address exists in
  the mail store. \<open>Rcpt\<close> never asks the store: with the domain
  \<open>tempmail.example.com\<close> configured and only \<open>alive@tempmail.example.com\<close> in the
  \<open>addresses\<close> table, \<open>AddressExists\<close> answers false for
  \<open>ghost@tempmail.example.com\<close>, and \<open>Rcpt\<close> accepts it all the same. The message
  then fails at \<open>DATA\<close>, where \<open>getAddress\<close> does not find the mailbox.
\<close>

theorem C1_Rcpt_accepts_missing_mailbox:
  "AddressExists no_faults sample_db ''ghost@tempmail.example.com'' = Inr False \<and>
   Rcpt sample_lib (Mail (Backend_NewSession sample_cfg ra hn) ''sender@example.com'')
       ''ghost@tempmail.example.com'' =
     Inr ((Mail (Backend_NewSession sample_cfg ra hn) ''sender@example.com'')
            \<lparr>to_addrs := [''ghost@tempmail.example.com'']\<rparr>) \<and>
   Data sample_lib never_fails
       ((Mail (Backend_NewSession sample_cfg ra hn) ''sender@example.com'')
          \<lparr>to_addrs := [''ghost@tempmail.example.com'']\<rparr>)
       sample_db (Reader sample_message None) now =
     Some (sample_db, Some (Errorf ''error storing message''))"
proof -
  let ?s0 = "Mail (Backend_NewSession sample_cfg ra hn) ''sender@example.com''"
  let ?s1 = "?s0\<lparr>to_addrs := [''ghost@tempmail.example.com'']\<rparr>"
  have a: "AddressExists no_faults sample_db ''ghost@tempmail.example.com'' = Inr False"
    by (simp add: AddressExists_def no_faults_def sample_db_def ToLower_ghost)
  have r: "Rcpt sample_lib ?s0 ''ghost@tempmail.example.com'' = Inr ?s1"
    by (simp add: ToLower_ghost ToLower_tempmail Rcpt_def sample_lib_def Mail_def
        Backend_NewSession_def NewSession_def sample_cfg_def GetDomainMap_def map_index_def
        Let_def)
  have f: "cfg ?s1 = sample_cfg" "validator ?s1 = None"
    "to_addrs ?s1 = [''ghost@tempmail.example.com'']"
    by (simp_all add: Mail_def Backend_NewSession_def NewSession_def
        NewSMTPServer_validator_def sample_cfg_def)
  have len: "length sample_message < 1048576"
    by (simp add: sample_message_def)
  have d: "Data sample_lib never_fails ?s1 sample_db (Reader sample_message None) now =
     Some (sample_db, Some (Errorf ''error storing message''))"
    unfolding Data_def f
    by (simp add: read_limited_small [OF len] max_size_sample length_sample_message
        ReadEnvelope_sample
        Let_def never_fails_def StoreEmail_ghost)
  from a r d show ?thesis by (intro conjI)
qed

end
